theory Spec2Isabelle
  imports Complex_Main "HOL-Library.Word"
begin

section \<open>Cells of the octree (fmm-dipole-reduced, \<^verbatim>\<open>tree.hpp\<close>)\<close>

text \<open>
  The class \<^verbatim>\<open>Cell\<close> of the FMM variant. The \<^verbatim>\<open>size_t\<close> fields hold counts and
  indices and are kept as naturals; a \<^verbatim>\<open>double\<close> is a value of the type parameter
  \<open>'d\<close> (instantiated with \<open>real\<close> where arithmetic is needed); the raw pointers
  \<^verbatim>\<open>M\<close> and \<^verbatim>\<open>L\<close> are offsets into the coefficient arrays they point into, \<open>None\<close>
  while they have not been set.
\<close>

record 'd Cell =
  nleaf :: nat
  nchild :: nat
  level :: nat
  child :: "nat list"
  M :: "nat option"
  L :: "nat option"
  leaf :: "nat list"
  x :: 'd
  y :: 'd
  z :: 'd
  r :: 'd
  rmax :: 'd
  parent :: nat

text \<open>
  \<^verbatim>\<open>Cell& operator=(const Cell& other)\<close>: twelve member-wise assignments to
  \<^verbatim>\<open>*this\<close>, in the order of the source. There is no assignment to \<^verbatim>\<open>rmax\<close>.
\<close>

definition assign :: "'d Cell \<Rightarrow> 'd Cell \<Rightarrow> 'd Cell" where
  "assign this other =
     this\<lparr>nleaf := nleaf other,
          nchild := nchild other,
          level := level other,
          child := child other,
          M := M other,
          L := L other,
          leaf := leaf other,
          x := x other,
          y := y other,
          z := z other,
          r := r other,
          parent := parent other\<rparr>"

section \<open>Machine arithmetic\<close>

text \<open>
  \<^verbatim>\<open>size_t\<close> is 64 bits wide: a product, sum or difference of sizes is taken modulo
  \<open>2 ^ 64\<close>.
\<close>

definition sz :: "nat \<Rightarrow> nat" where
  "sz n = n mod 2 ^ 64"

definition size_sub :: "nat \<Rightarrow> nat \<Rightarrow> nat" where
  "size_sub a b = (sz a + 2 ^ 64 - sz b) mod 2 ^ 64"

text \<open>
  The operations on \<^verbatim>\<open>double\<close> that the drivers use, and the random generator:
  \<open>d_rand n\<close> is the value returned by the \<open>n\<close>-th call (counted from 0) of
  \<^verbatim>\<open>distribution(generator)\<close>, and \<open>d_lit\<close> is the value of a floating literal, given as
  the source writes it. The drivers are written over any such record, so that nothing
  proved about them rests on how a \<^verbatim>\<open>double\<close> rounds.
\<close>

record 'd ops =
  d_zero :: 'd
  d_add :: "'d \<Rightarrow> 'd \<Rightarrow> 'd"
  d_sub :: "'d \<Rightarrow> 'd \<Rightarrow> 'd"
  d_mul :: "'d \<Rightarrow> 'd \<Rightarrow> 'd"
  d_div :: "'d \<Rightarrow> 'd \<Rightarrow> 'd"
  d_sqrt :: "'d \<Rightarrow> 'd"
  d_lit :: "string \<Rightarrow> 'd"
  d_rand :: "nat \<Rightarrow> 'd"

text \<open>The exact operations on the reals, with a generator that repeats 1, 0, 0.\<close>

definition real_ops :: "real ops" where
  "real_ops = \<lparr>d_zero = 0, d_add = (+), d_sub = (-), d_mul = (*), d_div = (/),
                d_sqrt = sqrt,
                d_lit = (\<lambda>s. if s = ''1e24'' then 10 ^ 24 else if s = ''1e-9'' then 1 / 10 ^ 9 else 0),
                d_rand = (\<lambda>n. if n mod 3 = 0 then 1 else 0)\<rparr>"

section \<open>The driver \<^verbatim>\<open>scaling_test.cpp\<close>\<close>

text \<open>
  A particle of the FMM variant holds two pointers, \<^verbatim>\<open>r\<close> into the array of positions
  and \<^verbatim>\<open>mu\<close> into the array of moments; a pointer is the index it points at.
\<close>

datatype Particle = Particle (p_r: nat) (p_mu: nat)

text \<open>
  An array made by \<^verbatim>\<open>new double[n]\<close> is not initialised: an element is \<open>None\<close>
  until it is written. A write outside the array is undefined behaviour, \<open>None\<close>.
\<close>

definition new_double :: "nat \<Rightarrow> 'd option list" where
  "new_double n = replicate n None"

definition store :: "'d option list \<Rightarrow> nat \<Rightarrow> 'd \<Rightarrow> 'd option list option" where
  "store a j v = (if j < length a then Some (a[j := Some v]) else None)"

record 'd prep =
  mu_arr :: "'d option list"
  r_arr :: "'d option list"
  particles :: "Particle list"
  ndraw :: nat
  mux_total :: 'd
  muy_total :: 'd
  muz_total :: 'd

text \<open>Lines 26 to 36: the state before the loop over the particles.\<close>

definition prep_init :: "'d ops \<Rightarrow> nat \<Rightarrow> 'd prep" where
  "prep_init E Nparticles =
     \<lparr>mu_arr = new_double (sz (3 * Nparticles)),
      r_arr = new_double (sz (3 * Nparticles)),
      particles = [],
      ndraw = 0,
      mux_total = d_zero E, muy_total = d_zero E, muz_total = d_zero E\<rparr>"

text \<open>
  Lines 39 to 61, the body of the loop for particle \<open>i\<close>. Six values are drawn, the
  last three into the locals \<^verbatim>\<open>x\<close>, \<^verbatim>\<open>y\<close>, \<^verbatim>\<open>z\<close> (here \<open>px\<close>, \<open>py\<close>, \<open>pz\<close>),
  which no later statement reads; the three writes go to \<^verbatim>\<open>mu\<close>; the particle gets
  the addresses \<^verbatim>\<open>&r[3*i]\<close> and \<^verbatim>\<open>&mu[3*i]\<close>.
\<close>

definition prep_step :: "'d ops \<Rightarrow> nat \<Rightarrow> 'd prep \<Rightarrow> 'd prep option" where
  "prep_step E i s =
     (let n = ndraw s;
          mux = d_rand E n; muy = d_rand E (n + 1); muz = d_rand E (n + 2);
          px = d_rand E (n + 3); py = d_rand E (n + 4); pz = d_rand E (n + 5);
          md = d_sqrt E (d_add E (d_add E (d_mul E mux mux) (d_mul E muy muy))
                                 (d_mul E muz muz));
          mux = d_div E mux md; muy = d_div E muy md; muz = d_div E muz md
      in case store (mu_arr s) (sz (sz (3 * i) + 0)) mux of
           None \<Rightarrow> None
         | Some a0 \<Rightarrow>
             (case store a0 (sz (sz (3 * i) + 1)) muy of
                None \<Rightarrow> None
              | Some a1 \<Rightarrow>
                  (case store a1 (sz (sz (3 * i) + 2)) muz of
                     None \<Rightarrow> None
                   | Some a2 \<Rightarrow>
                       Some (s\<lparr>mu_arr := a2,
                               particles := particles s @ [Particle (sz (3 * i)) (sz (3 * i))],
                               ndraw := n + 6,
                               mux_total := d_add E (mux_total s) mux,
                               muy_total := d_add E (muy_total s) muy,
                               muz_total := d_add E (muz_total s) muz\<rparr>))))"

text \<open>The loop \<^verbatim>\<open>for (size_t i = 0; i < Nparticles; i++)\<close>.\<close>

definition prep_loop :: "'d ops \<Rightarrow> nat \<Rightarrow> 'd prep option" where
  "prep_loop E Nparticles =
     fold (\<lambda>i s. case s of None \<Rightarrow> None | Some t \<Rightarrow> prep_step E i t)
          [0..<Nparticles] (Some (prep_init E Nparticles))"

text \<open>
  The calls that hand the particles on: \<^verbatim>\<open>evaluate_direct\<close> at line 69 and, for every
  order from 2 below \<^verbatim>\<open>maxorder\<close>, \<^verbatim>\<open>build_tree\<close> at line 78. Both functions are
  outside these sources; a call is recorded with the particles and the two arrays
  their pointers lead into. No statement of \<^verbatim>\<open>main\<close> between the loop and these
  calls writes to either array.
\<close>

datatype 'd call =
    Evaluate_direct "Particle list" "'d option list" "'d option list" nat
  | Build_tree "Particle list" "'d option list" "'d option list" nat nat

fun call_particles :: "'d call \<Rightarrow> Particle list" where
  "call_particles (Evaluate_direct ps rs ms n) = ps"
| "call_particles (Build_tree ps rs ms ncrit order) = ps"

fun call_positions :: "'d call \<Rightarrow> 'd option list" where
  "call_positions (Evaluate_direct ps rs ms n) = rs"
| "call_positions (Build_tree ps rs ms ncrit order) = rs"

definition scaling_test_calls :: "'d ops \<Rightarrow> nat \<Rightarrow> nat \<Rightarrow> nat \<Rightarrow> 'd call list option" where
  "scaling_test_calls E Nparticles ncrit maxorder =
     (case prep_loop E Nparticles of
        None \<Rightarrow> None
      | Some s \<Rightarrow>
          Some (Evaluate_direct (particles s) (r_arr s) (mu_arr s) Nparticles #
                map (\<lambda>order. Build_tree (particles s) (r_arr s) (mu_arr s) ncrit order)
                    [2..<maxorder]))"

text \<open>
  Modelled from the spec: \<^verbatim>\<open>Nterms\<close>, which \<^verbatim>\<open>utils.hpp\<close> declares and these sources do
  not contain. The spec gives the number of coefficients through order \<open>p\<close> as
  \<open>(p+1)(p+2)(p+3)/6\<close>.
\<close>

definition Nterms :: "nat \<Rightarrow> nat" where
  "Nterms p = (p + 1) * (p + 2) * (p + 3) div 6"

text \<open>
  The two strides of lines 79 to 86, \<^verbatim>\<open>Nterms(order) - Nterms(0)\<close> and
  \<^verbatim>\<open>Nterms(order - 1)\<close>, in the arithmetic of \<^verbatim>\<open>size_t\<close>.
\<close>

definition M_len :: "nat \<Rightarrow> nat" where
  "M_len order = size_sub (Nterms order) (Nterms 0)"

definition L_len :: "nat \<Rightarrow> nat" where
  "L_len order = sz (Nterms (size_sub order 1))"

text \<open>
  Lines 79 to 87: the two arrays \<^verbatim>\<open>M\<close> and \<^verbatim>\<open>L\<close>, of \<^verbatim>\<open>cells.size()\<close> strides each
  and filled with \<^verbatim>\<open>0.0\<close>, and the loop that points cell \<open>i\<close> at \<^verbatim>\<open>&M[i * stride]\<close>
  and \<^verbatim>\<open>&L[i * stride]\<close>.
\<close>

record 'd arenas =
  M_arena :: "'d list"
  L_arena :: "'d list"
  cells :: "'d Cell list"

definition point_cell :: "nat \<Rightarrow> nat \<Rightarrow> 'd Cell list \<Rightarrow> 'd Cell list" where
  "point_cell order i cs =
     cs[i := (cs ! i)\<lparr>M := Some (sz (i * M_len order)), L := Some (sz (i * L_len order))\<rparr>]"

definition allocate :: "'d ops \<Rightarrow> nat \<Rightarrow> 'd Cell list \<Rightarrow> 'd arenas" where
  "allocate E order cs =
     \<lparr>M_arena = replicate (sz (length cs * M_len order)) (d_zero E),
      L_arena = replicate (sz (length cs * L_len order)) (d_zero E),
      cells = fold (point_cell order) [0..<length cs] cs\<rparr>"

text \<open>The \<open>len\<close> elements of an array from the index \<open>off\<close> on.\<close>

definition arena_slice :: "'a list \<Rightarrow> nat \<Rightarrow> nat \<Rightarrow> 'a list" where
  "arena_slice a off len = take len (drop off a)"

text \<open>A cell of radius 1 at the origin, for the examples.\<close>

definition cell0 :: "real Cell" where
  "cell0 = \<lparr>nleaf = 0, nchild = 0, level = 0, child = [], M = None, L = None, leaf = [],
            x = 0, y = 0, z = 0, r = 1, rmax = 0, parent = 0\<rparr>"

section \<open>The driver \<^verbatim>\<open>lazy.cpp\<close>\<close>

subsection \<open>The command line\<close>

text \<open>
  \<open>argv\<close> is the list of the \<^verbatim>\<open>argc\<close> strings \<^verbatim>\<open>argv[0]\<close>, ..., \<^verbatim>\<open>argv[argc - 1]\<close>.
  The element \<^verbatim>\<open>argv[argc]\<close> is the null pointer that ends the vector, and there is
  nothing behind it. A run of \<^verbatim>\<open>main\<close> that does not reach \<^verbatim>\<open>return\<close> ends in one of
  these ways: a \<^verbatim>\<open>std::string\<close> made from the null pointer \<^verbatim>\<open>argv[i]\<close>, a read behind the
  vector, \<^verbatim>\<open>std::invalid_argument\<close> or \<^verbatim>\<open>std::out_of_range\<close> thrown by the conversion of
  \<^verbatim>\<open>argv[i]\<close>, an allocation that fails, a write outside an array, or a call of
  \<^verbatim>\<open>build_tree\<close> for an order that returns no tree. Nothing in \<^verbatim>\<open>main\<close> catches an
  exception.
\<close>

datatype failure =
    Null_argument nat
  | Past_argv nat
  | Invalid_argument nat
  | Out_of_range nat
  | Bad_alloc
  | Write_outside_array
  | Build_failed nat

definition arg :: "string list \<Rightarrow> nat \<Rightarrow> failure + string" where
  "arg argv i =
     (if i < length argv then Inr (argv ! i)
      else if i = length argv then Inl (Null_argument i)
      else Inl (Past_argv i))"

definition and_then :: "failure + 'a \<Rightarrow> ('a \<Rightarrow> failure + 'b) \<Rightarrow> failure + 'b" where
  "and_then m f = (case m of Inl e \<Rightarrow> Inl e | Inr v \<Rightarrow> f v)"

text \<open>
  \<^verbatim>\<open>std::stoul\<close> in base 10, as the standard library defines it through \<^verbatim>\<open>strtoul\<close>:
  leading white space is skipped, one sign is accepted, the longest run of digits is
  read and what follows it is ignored; no digit throws \<^verbatim>\<open>std::invalid_argument\<close>, a
  magnitude above \<open>2 ^ 64 - 1\<close> throws \<^verbatim>\<open>std::out_of_range\<close>, and a minus sign negates
  the value in \<^verbatim>\<open>unsigned long\<close>.
\<close>

datatype parse_error = No_conversion | Too_large

definition isspace :: "char \<Rightarrow> bool" where
  "isspace c = (of_char c \<in> {32, 9, 10, 11, 12, 13 :: nat})"

definition isdigit :: "char \<Rightarrow> bool" where
  "isdigit c = (48 \<le> (of_char c :: nat) \<and> (of_char c :: nat) \<le> 57)"

definition digits_value :: "string \<Rightarrow> nat" where
  "digits_value ds = foldl (\<lambda>a c. 10 * a + (of_char c - 48)) 0 ds"

definition stoul :: "string \<Rightarrow> parse_error + nat" where
  "stoul str =
     (let s1 = dropWhile isspace str;
          signed = (s1 \<noteq> [] \<and> (hd s1 = CHR ''-'' \<or> hd s1 = CHR ''+''));
          negative = (s1 \<noteq> [] \<and> hd s1 = CHR ''-'');
          ds = takeWhile isdigit (if signed then tl s1 else s1)
      in if ds = [] then Inl No_conversion
         else if 2 ^ 64 \<le> digits_value ds then Inl Too_large
         else Inr (if negative then size_sub 0 (digits_value ds) else digits_value ds))"

text \<open>
  What \<^verbatim>\<open>lazy.cpp\<close> takes from outside: the arithmetic and the generator (the fields of
  \<open>ops\<close>), \<^verbatim>\<open>std::stod\<close>, \<^verbatim>\<open>std::to_string\<close> of a \<^verbatim>\<open>double\<close>, the text that
  \<^verbatim>\<open>operator<<\<close> writes for a \<^verbatim>\<open>double\<close>, whether an allocation of so many doubles
  succeeds, and the tree: \<^verbatim>\<open>build_tree\<close> (\<open>None\<close> when it does not return a tree) and
  the three methods of the tree it returns. A method gets the tree and the contents of
  the output array, and gives back the tree and the value it leaves at each index.
\<close>

record ('d, 't) env = "'d ops" +
  e_stod :: "string \<Rightarrow> parse_error + 'd"
  e_to_string :: "'d \<Rightarrow> string"
  e_put :: "'d \<Rightarrow> string"
  e_alloc :: "nat \<Rightarrow> bool"
  e_build_tree :: "'d option list \<Rightarrow> 'd option list \<Rightarrow> nat \<Rightarrow> nat \<Rightarrow> nat \<Rightarrow> 'd \<Rightarrow> 't option"
  e_compute_field_exact :: "'t \<Rightarrow> 'd list \<Rightarrow> 't \<times> (nat \<Rightarrow> 'd)"
  e_compute_field_fmm :: "'t \<Rightarrow> 'd list \<Rightarrow> 't \<times> (nat \<Rightarrow> 'd)"
  e_compute_field_bh :: "'t \<Rightarrow> 'd list \<Rightarrow> 't \<times> (nat \<Rightarrow> 'd)"

definition stoul_arg :: "string list \<Rightarrow> nat \<Rightarrow> failure + nat" where
  "stoul_arg argv i =
     and_then (arg argv i) (\<lambda>a.
       case stoul a of
         Inl No_conversion \<Rightarrow> Inl (Invalid_argument i)
       | Inl Too_large \<Rightarrow> Inl (Out_of_range i)
       | Inr n \<Rightarrow> Inr n)"

definition stod_arg :: "('d, 't, 'z) env_scheme \<Rightarrow> string list \<Rightarrow> nat \<Rightarrow> failure + 'd" where
  "stod_arg E argv i =
     and_then (arg argv i) (\<lambda>a.
       case e_stod E a of
         Inl No_conversion \<Rightarrow> Inl (Invalid_argument i)
       | Inl Too_large \<Rightarrow> Inl (Out_of_range i)
       | Inr v \<Rightarrow> Inr v)"

text \<open>
  Lines 17 to 21: the five conversions, one after the other. The result is
  \<open>(Nparticles, ncrit, theta, maxorder, type)\<close>. Nothing looks at \<^verbatim>\<open>argc\<close>.
\<close>

definition parse_args ::
  "('d, 't, 'z) env_scheme \<Rightarrow> string list \<Rightarrow> failure + (nat \<times> nat \<times> 'd \<times> nat \<times> nat)" where
  "parse_args E argv =
     and_then (stoul_arg argv 1) (\<lambda>Nparticles.
     and_then (stoul_arg argv 2) (\<lambda>ncrit.
     and_then (stod_arg E argv 3) (\<lambda>theta.
     and_then (stoul_arg argv 4) (\<lambda>maxorder.
     and_then (stoul_arg argv 5) (\<lambda>type.
       Inr (Nparticles, ncrit, theta, maxorder, type))))))"

subsection \<open>The arrays of positions and moments\<close>

text \<open>
  A vector of \<open>n\<close> doubles cannot be made when \<open>n\<close> is above \<^verbatim>\<open>max_size()\<close>, which is
  \<open>2 ^ 60 - 1\<close> where \<^verbatim>\<open>size_t\<close> has 64 bits, and the allocation can fail below that.
\<close>

definition alloc_ok :: "('d, 't, 'z) env_scheme \<Rightarrow> nat \<Rightarrow> bool" where
  "alloc_ok E n = (n < 2 ^ 60 \<and> e_alloc E n)"

record 'd arrays =
  a_r :: "'d option list"
  a_mu :: "'d option list"
  a_ndraw :: nat
  a_mux_total :: 'd
  a_muy_total :: 'd
  a_muz_total :: 'd

definition arrays_init :: "('d, 't, 'z) env_scheme \<Rightarrow> nat \<Rightarrow> 'd arrays" where
  "arrays_init E Nparticles =
     \<lparr>a_r = new_double (sz (3 * Nparticles)),
      a_mu = new_double (sz (3 * Nparticles)),
      a_ndraw = 0,
      a_mux_total = d_zero E, a_muy_total = d_zero E, a_muz_total = d_zero E\<rparr>"

text \<open>
  Lines 46 to 65, the body of the loop for particle \<open>i\<close>: three draws for the moment,
  which is divided by its norm times \<^verbatim>\<open>1e24\<close>, then three draws times \<^verbatim>\<open>1e-9\<close>
  written to \<^verbatim>\<open>r[3*i+0]\<close>, \<^verbatim>\<open>r[3*i+1]\<close>, \<^verbatim>\<open>r[3*i+2]\<close>, then the moment written to
  \<^verbatim>\<open>mu[3*i+0]\<close>, \<^verbatim>\<open>mu[3*i+1]\<close>, \<^verbatim>\<open>mu[3*i+2]\<close>.
\<close>

definition moment_norm :: "('d, 'z) ops_scheme \<Rightarrow> 'd \<Rightarrow> 'd \<Rightarrow> 'd \<Rightarrow> 'd" where
  "moment_norm E mux muy muz =
     d_mul E (d_sqrt E (d_add E (d_add E (d_mul E mux mux) (d_mul E muy muy))
                               (d_mul E muz muz)))
             (d_lit E ''1e24'')"

definition store3 ::
  "'d option list \<Rightarrow> nat \<Rightarrow> 'd \<Rightarrow> 'd \<Rightarrow> 'd \<Rightarrow> 'd option list option" where
  "store3 a i v0 v1 v2 =
     (case store a (sz (sz (3 * i) + 0)) v0 of
        None \<Rightarrow> None
      | Some a0 \<Rightarrow>
          (case store a0 (sz (sz (3 * i) + 1)) v1 of
             None \<Rightarrow> None
           | Some a1 \<Rightarrow> store a1 (sz (sz (3 * i) + 2)) v2))"

definition arrays_step :: "('d, 't, 'z) env_scheme \<Rightarrow> nat \<Rightarrow> 'd arrays \<Rightarrow> 'd arrays option" where
  "arrays_step E i s =
     (let n = a_ndraw s;
          mux = d_rand E n; muy = d_rand E (n + 1); muz = d_rand E (n + 2);
          md = moment_norm E mux muy muz;
          mux = d_div E mux md; muy = d_div E muy md; muz = d_div E muz md
      in case store3 (a_r s) i (d_mul E (d_rand E (n + 3)) (d_lit E ''1e-9''))
                               (d_mul E (d_rand E (n + 4)) (d_lit E ''1e-9''))
                               (d_mul E (d_rand E (n + 5)) (d_lit E ''1e-9'')) of
           None \<Rightarrow> None
         | Some rs \<Rightarrow>
             (case store3 (a_mu s) i mux muy muz of
                None \<Rightarrow> None
              | Some ms \<Rightarrow>
                  Some (s\<lparr>a_r := rs, a_mu := ms, a_ndraw := n + 6,
                          a_mux_total := d_add E (a_mux_total s) mux,
                          a_muy_total := d_add E (a_muy_total s) muy,
                          a_muz_total := d_add E (a_muz_total s) muz\<rparr>)))"

definition arrays_loop :: "('d, 't, 'z) env_scheme \<Rightarrow> nat \<Rightarrow> 'd arrays option" where
  "arrays_loop E Nparticles =
     fold (\<lambda>i s. case s of None \<Rightarrow> None | Some t \<Rightarrow> arrays_step E i t)
          [0..<Nparticles] (Some (arrays_init E Nparticles))"

subsection \<open>The loop over the orders\<close>

text \<open>\<^verbatim>\<open>std::to_string\<close> of a \<^verbatim>\<open>size_t\<close>: the decimal digits.\<close>

function to_string :: "nat \<Rightarrow> string" where
  "to_string n =
     (if n < 10 then [''0123456789'' ! n]
      else to_string (n div 10) @ [''0123456789'' ! (n mod 10)])"
  by pat_completeness auto
termination
  by (relation "measure (\<lambda>n. n)") auto

declare to_string.simps [simp del]

text \<open>
  What a run does with the tree and the file system, in the order in which it does it:
  the call of \<^verbatim>\<open>build_tree\<close> with its six arguments, the calls of the three methods,
  and the file opened under a name with all that is written to it.
\<close>

datatype 'd event =
    Ev_build_tree "'d option list" "'d option list" nat nat nat 'd
  | Ev_compute_field_exact
  | Ev_compute_field_fmm
  | Ev_compute_field_bh
  | Ev_file string string

text \<open>
  One turn of the loop over the orders: its order, its events, and the two vectors
  \<^verbatim>\<open>F_exact\<close> and \<^verbatim>\<open>F_approx\<close> as they are when the file is written.
\<close>

record 'd turn =
  t_order :: nat
  t_events :: "'d event list"
  t_F_exact :: "'d list"
  t_F_approx :: "'d list"

text \<open>Lines 93 to 97, the name of the file, and lines 99 to 103, what is written to it.\<close>

definition filename :: "('d, 't, 'z) env_scheme \<Rightarrow> nat \<Rightarrow> nat \<Rightarrow> nat \<Rightarrow> 'd \<Rightarrow> nat \<Rightarrow> string" where
  "filename E order Nparticles ncrit theta type =
     ''errors_lazy_p_'' @ to_string order @
     ''_n_'' @ to_string Nparticles @
     ''_ncrit_'' @ to_string ncrit @
     ''_theta_'' @ e_to_string E theta @
     ''_type_'' @ to_string type @ ''.txt''"

definition poterr :: "('d, 'z) ops_scheme \<Rightarrow> 'd list \<Rightarrow> 'd list \<Rightarrow> nat \<Rightarrow> 'd" where
  "poterr E F_exact F_approx i =
     d_div E (d_sub E (F_exact ! i) (F_approx ! i)) (F_exact ! i)"

definition file_text :: "('d, 't, 'z) env_scheme \<Rightarrow> nat \<Rightarrow> 'd list \<Rightarrow> 'd list \<Rightarrow> string" where
  "file_text E Nparticles F_exact F_approx =
     concat (map (\<lambda>i. e_put E (poterr E F_exact F_approx i) @ [CHR 0x0A]) [0..<Nparticles])"

text \<open>
  Lines 72 to 107, the body of the loop for one order, with \<^verbatim>\<open>minorder = 2\<close> and
  \<^verbatim>\<open>calc_direct = 1\<close>. It gives the turn and the tree-independent state that the next
  turn starts from, \<^verbatim>\<open>F_exact\<close>.
\<close>

definition order_turn ::
  "('d, 't, 'z) env_scheme \<Rightarrow> 'd arrays \<Rightarrow> nat \<times> nat \<times> 'd \<times> nat \<times> nat \<Rightarrow> nat \<Rightarrow> 'd list \<Rightarrow>
   failure + 'd turn" where
  "order_turn E s P order F_exact =
     (case P of (Nparticles, ncrit, theta, maxorder, type) \<Rightarrow>
        (case e_build_tree E (a_r s) (a_mu s) Nparticles ncrit order theta of
           None \<Rightarrow> Inl (Build_failed order)
         | Some tree \<Rightarrow>
             (let F_approx = replicate Nparticles (d_zero E);
                  direct = (order = 2);
                  (tree, F_exact) =
                     (if direct
                      then (case e_compute_field_exact E tree F_exact of
                              (t, f) \<Rightarrow> (t, map f [0..<Nparticles]))
                      else (tree, F_exact));
                  (tree, F_approx) =
                     (if type = 0
                      then (case e_compute_field_fmm E tree F_approx of
                              (t, f) \<Rightarrow> (t, map f [0..<Nparticles]))
                      else if type = 1
                      then (case e_compute_field_bh E tree F_approx of
                              (t, f) \<Rightarrow> (t, map f [0..<Nparticles]))
                      else (tree, F_approx))
              in Inr \<lparr>t_order = order,
                      t_events =
                        [Ev_build_tree (a_r s) (a_mu s) Nparticles ncrit order theta] @
                        (if direct then [Ev_compute_field_exact] else []) @
                        (if type = 0 then [Ev_compute_field_fmm]
                         else if type = 1 then [Ev_compute_field_bh] else []) @
                        [Ev_file (filename E order Nparticles ncrit theta type)
                                 (file_text E Nparticles F_exact F_approx)],
                      t_F_exact = F_exact,
                      t_F_approx = F_approx\<rparr>)))"

text \<open>The loop \<^verbatim>\<open>for (size_t order = minorder; order < maxorder; order++)\<close>.\<close>

fun orders_loop ::
  "('d, 't, 'z) env_scheme \<Rightarrow> 'd arrays \<Rightarrow> nat \<times> nat \<times> 'd \<times> nat \<times> nat \<Rightarrow> nat list \<Rightarrow> 'd list \<Rightarrow>
   failure + 'd turn list" where
  "orders_loop E s P [] F_exact = Inr []"
| "orders_loop E s P (order # orders) F_exact =
     and_then (order_turn E s P order F_exact) (\<lambda>t.
     and_then (orders_loop E s P orders (t_F_exact t)) (\<lambda>ts. Inr (t # ts)))"

subsection \<open>\<^verbatim>\<open>main\<close>\<close>

text \<open>
  Lines 17 to 119. A run that reaches \<^verbatim>\<open>return 0\<close> gives the exit code and the turns
  of the loop over the orders.
\<close>

record 'd run =
  exit_code :: int
  turns :: "'d turn list"

definition main :: "('d, 't, 'z) env_scheme \<Rightarrow> string list \<Rightarrow> failure + 'd run" where
  "main E argv =
     and_then (parse_args E argv) (\<lambda>P.
       case P of (Nparticles, ncrit, theta, maxorder, type) \<Rightarrow>
         if \<not> alloc_ok E Nparticles then Inl Bad_alloc
         else if \<not> alloc_ok E (sz (3 * Nparticles)) then Inl Bad_alloc
         else (case arrays_loop E Nparticles of
                 None \<Rightarrow> Inl Write_outside_array
               | Some s \<Rightarrow>
                   and_then (orders_loop E s P [2..<maxorder] (replicate Nparticles (d_zero E)))
                     (\<lambda>ts. Inr \<lparr>exit_code = 0, turns = ts\<rparr>)))"

text \<open>
  An environment for the examples: the exact operations on the reals, conversions that
  know the one value \<open>0.5\<close>, allocations that succeed, and a tree that is built for
  every input, whose methods leave 1, 1/2 and 2 in every element of the output.
\<close>

definition real_env :: "(real, unit) env" where
  "real_env =
     \<lparr>d_zero = 0, d_add = (+), d_sub = (-), d_mul = (*), d_div = (/), d_sqrt = sqrt,
      d_lit = (\<lambda>s. if s = ''1e24'' then 10 ^ 24 else if s = ''1e-9'' then 1 / 10 ^ 9 else 0),
      d_rand = (\<lambda>n. if n mod 3 = 0 then 1 else 0),
      e_stod = (\<lambda>s. if s = ''0.5'' then Inr (1 / 2) else Inl No_conversion),
      e_to_string = (\<lambda>v. if v = 1 / 2 then ''0.500000'' else ''0.000000''),
      e_put = (\<lambda>v. if v = 1 / 2 then ''0.5'' else if v = - 1 then ''-1'' else ''0''),
      e_alloc = (\<lambda>n. True),
      e_build_tree = (\<lambda>rs ms n ncrit order theta. Some ()),
      e_compute_field_exact = (\<lambda>t F. (t, \<lambda>i. 1)),
      e_compute_field_fmm = (\<lambda>t F. (t, \<lambda>i. 1 / 2)),
      e_compute_field_bh = (\<lambda>t F. (t, \<lambda>i. 2))\<rparr>"

text \<open>
  The values that turn \<open>i\<close> of the loop over the particles writes at offset \<open>c\<close> of
  particle \<open>i\<close>: lines 60 to 62 for the position, lines 46 to 53 and 63 to 65 for the
  moment. The draws \<open>6 * i\<close>, \<open>6 * i + 1\<close>, \<open>6 * i + 2\<close> are \<^verbatim>\<open>mux\<close>, \<^verbatim>\<open>muy\<close>, \<^verbatim>\<open>muz\<close>.
\<close>

definition position_of :: "('d, 'z) ops_scheme \<Rightarrow> nat \<Rightarrow> nat \<Rightarrow> 'd" where
  "position_of E i c = d_mul E (d_rand E (6 * i + 3 + c)) (d_lit E ''1e-9'')"

definition moment_of :: "('d, 'z) ops_scheme \<Rightarrow> nat \<Rightarrow> nat \<Rightarrow> 'd" where
  "moment_of E i c =
     d_div E (d_rand E (6 * i + c))
             (moment_norm E (d_rand E (6 * i)) (d_rand E (6 * i + 1)) (d_rand E (6 * i + 2)))"

text \<open>
  The state of the two arrays after \<open>n\<close> turns of the loop over \<open>N\<close> particles, and the
  events that are files.
\<close>

definition arrays_inv :: "('d, 't, 'z) env_scheme \<Rightarrow> nat \<Rightarrow> nat \<Rightarrow> 'd arrays \<Rightarrow> bool" where
  "arrays_inv E N n s =
     (length (a_r s) = 3 * N \<and> length (a_mu s) = 3 * N \<and> a_ndraw s = 6 * n \<and>
      (\<forall>i < n. \<forall>c < 3. a_r s ! (3 * i + c) = Some (position_of E i c) \<and>
                          a_mu s ! (3 * i + c) = Some (moment_of E i c)))"

fun is_file :: "'d event \<Rightarrow> bool" where
  "is_file (Ev_file name text) = True"
| "is_file _ = False"

text \<open>
  A run of \<^verbatim>\<open>lazy 2 8 0.5 4 0\<close> in the environment of the examples: the arrays it
  fills and what it does.
\<close>

definition ex_r :: "real option list" where
  "ex_r = [Some (1 / 10 ^ 9), Some 0, Some 0, Some (1 / 10 ^ 9), Some 0, Some 0]"

definition ex_mu :: "real option list" where
  "ex_mu = [Some (1 / 10 ^ 24), Some 0, Some 0, Some (1 / 10 ^ 24), Some 0, Some 0]"

definition ex_argv :: "string list" where
  "ex_argv = [''lazy'', ''2'', ''8'', ''0.5'', ''4'', ''0'']"

definition ex_run :: "real run" where
  "ex_run =
     \<lparr>exit_code = 0,
      turns =
        [\<lparr>t_order = 2,
          t_events =
            [Ev_build_tree ex_r ex_mu 2 8 2 (1 / 2), Ev_compute_field_exact, Ev_compute_field_fmm,
             Ev_file ''errors_lazy_p_2_n_2_ncrit_8_theta_0.500000_type_0.txt''
                     [CHR ''0'', CHR ''.'', CHR ''5'', CHR 0x0A, CHR ''0'', CHR ''.'', CHR ''5'', CHR 0x0A]],
          t_F_exact = [1, 1], t_F_approx = [1 / 2, 1 / 2]\<rparr>,
         \<lparr>t_order = 3,
          t_events =
            [Ev_build_tree ex_r ex_mu 2 8 3 (1 / 2), Ev_compute_field_fmm,
             Ev_file ''errors_lazy_p_3_n_2_ncrit_8_theta_0.500000_type_0.txt''
                     [CHR ''0'', CHR ''.'', CHR ''5'', CHR 0x0A, CHR ''0'', CHR ''.'', CHR ''5'', CHR 0x0A]],
          t_F_exact = [1, 1], t_F_approx = [1 / 2, 1 / 2]\<rparr>]\<rparr>"

subsection \<open>The numbers in the file\<close>

















section \<open>The octree builder and the tree\<close>

text \<open>
  The sources declare \<^verbatim>\<open>add_child\<close>, \<^verbatim>\<open>split_cell\<close> and \<^verbatim>\<open>build_tree\<close> in \<^verbatim>\<open>tree.hpp\<close> and
  call \<^verbatim>\<open>build_tree\<close> in the drivers; the bodies are in no source file. The definitions
  of this section follow the spec's sections 3, 4.2, 6 and 7, over cells with real
  coordinates.
\<close>

type_synonym point = "real \<times> real \<times> real"

text \<open>
  Modelled from the spec: the layout of the particle arrays, which \<^verbatim>\<open>build_tree\<close> reads
  and whose body is missing. Positions are a flat array in x, y, z order.
\<close>

definition position :: "real list \<Rightarrow> nat \<Rightarrow> point" where
  "position positions i = (positions ! (3 * i), positions ! (3 * i + 1), positions ! (3 * i + 2))"

text \<open>
  Modelled from the spec: the constructor \<^verbatim>\<open>Cell(x, y, z, r, parent, order, level, ncrit)\<close>,
  declared in \<^verbatim>\<open>tree.hpp\<close> without a body. A new cell holds no particle and has eight
  empty child slots and no coefficient slices yet.
\<close>

definition new_cell :: "real \<Rightarrow> real \<Rightarrow> real \<Rightarrow> real \<Rightarrow> nat \<Rightarrow> nat \<Rightarrow> real Cell" where
  "new_cell cx cy cz cr par lvl =
     \<lparr>nleaf = 0, nchild = 0, level = lvl, child = replicate 8 0, M = None, L = None,
      leaf = [], x = cx, y = cy, z = cz, r = cr, rmax = 0, parent = par\<rparr>"

text \<open>
  Modelled from the spec: the octant of a point relative to a cell centre, missing with
  the body of \<^verbatim>\<open>build_tree\<close>. One bit for each axis; a coordinate in the centre plane
  goes to the positive side.
\<close>

definition octant_of :: "real Cell \<Rightarrow> point \<Rightarrow> nat" where
  "octant_of c p =
     (case p of (px, py, pz) \<Rightarrow>
        (if x c \<le> px then 1 else 0) + (if y c \<le> py then 2 else 0) + (if z c \<le> pz then 4 else 0))"

text \<open>
  Modelled from the spec: \<^verbatim>\<open>add_child\<close>, declared in \<^verbatim>\<open>tree.hpp\<close> without a body. The child
  of cell \<open>p\<close> in an octant is appended to the cells: its centre is the parent's, moved
  by half the parent's radius along each axis, to the side that the octant's bit
  gives; its radius is half the parent's; its level is one more; the parent gets the
  octant's bit in \<open>nchild\<close> and the child's index in the octant's slot.
\<close>

definition add_child :: "real Cell list \<Rightarrow> nat \<Rightarrow> nat \<Rightarrow> real Cell list" where
  "add_child cs octant p =
     (let q = cs ! p;
          h = r q / 2;
          c = new_cell (if bit octant 0 then x q + h else x q - h)
                       (if bit octant 1 then y q + h else y q - h)
                       (if bit octant 2 then z q + h else z q - h)
                       h p (level q + 1)
      in cs[p := q\<lparr>nchild := set_bit octant (nchild q),
                    child := (child q)[octant := length cs]\<rparr>] @ [c])"

text \<open>
  Modelled from the spec: the step "if that child does not yet exist, create it" of the
  missing builder.
\<close>

definition ensure_child :: "real Cell list \<Rightarrow> nat \<Rightarrow> nat \<Rightarrow> real Cell list" where
  "ensure_child cs p octant = (if bit (nchild (cs ! p)) octant then cs else add_child cs octant p)"

text \<open>
  Modelled from the spec: the descent of one particle from a cell (the body of the loop
  of the missing \<^verbatim>\<open>build_tree\<close>) and \<^verbatim>\<open>split_cell\<close>, declared in \<^verbatim>\<open>tree.hpp\<close> without a
  body. The first argument is the number of levels left below the cell before the
  spec's fixed maximum depth. At the maximum depth a cell is never split: it takes
  every particle that reaches it into its leaf list and counts it, so that it can hold
  \<open>ncrit\<close> particles or more. Above the maximum depth, at a cell with \<open>nleaf < ncrit\<close>
  the particle is appended to the leaf list and counted; when the count reaches
  \<open>ncrit\<close> by that, the cell is split: every particle of its leaf list goes down into
  the child of its octant, and then the leaf list is cleared, while \<open>nleaf\<close> stays. At a
  cell with \<open>nleaf \<ge> ncrit\<close> above the maximum depth the particle is counted (the
  comment on \<^verbatim>\<open>nleaf\<close> in \<^verbatim>\<open>tree.hpp\<close>: the counter goes on after the split) and goes
  down into the child of its octant.
\<close>

fun insert_particle ::
      "nat \<Rightarrow> nat \<Rightarrow> (nat \<Rightarrow> point) \<Rightarrow> real Cell list \<Rightarrow> nat \<Rightarrow> nat \<Rightarrow> real Cell list"
  and split_cell ::
      "nat \<Rightarrow> nat \<Rightarrow> (nat \<Rightarrow> point) \<Rightarrow> real Cell list \<Rightarrow> nat \<Rightarrow> nat list \<Rightarrow> real Cell list"
where
  "insert_particle 0 ncrit pos cs k i =
     cs[k := (cs ! k)\<lparr>leaf := leaf (cs ! k) @ [i], nleaf := nleaf (cs ! k) + 1\<rparr>]"
| "insert_particle (Suc depth) ncrit pos cs k i =
     (if nleaf (cs ! k) < ncrit
      then (let cs1 = cs[k := (cs ! k)\<lparr>leaf := leaf (cs ! k) @ [i], nleaf := nleaf (cs ! k) + 1\<rparr>]
            in if ncrit \<le> nleaf (cs1 ! k)
               then (let cs2 = split_cell depth ncrit pos cs1 k (leaf (cs1 ! k))
                     in cs2[k := (cs2 ! k)\<lparr>leaf := []\<rparr>])
               else cs1)
      else (let cs1 = cs[k := (cs ! k)\<lparr>nleaf := nleaf (cs ! k) + 1\<rparr>];
                octant = octant_of (cs1 ! k) (pos i);
                cs2 = ensure_child cs1 k octant
            in insert_particle depth ncrit pos cs2 (child (cs2 ! k) ! octant) i))"
| "split_cell depth ncrit pos cs p [] = cs"
| "split_cell depth ncrit pos cs p (i # rest) =
     (let octant = octant_of (cs ! p) (pos i);
          cs1 = ensure_child cs p octant;
          cs2 = insert_particle depth ncrit pos cs1 (child (cs1 ! p) ! octant) i
      in split_cell depth ncrit pos cs2 p rest)"

text \<open>
  Modelled from the spec: the loop of the missing \<^verbatim>\<open>build_tree\<close>. It starts with the
  root as the only cell and sends every particle down from the root, in index order.
\<close>

definition build_cells ::
  "nat \<Rightarrow> nat \<Rightarrow> (nat \<Rightarrow> point) \<Rightarrow> nat \<Rightarrow> real Cell \<Rightarrow> real Cell list" where
  "build_cells maxdepth ncrit pos N root_cell =
     fold (\<lambda>i cs. insert_particle maxdepth ncrit pos cs 0 i) [0..<N] [root_cell]"

text \<open>
  Modelled from the spec: the tree that \<^verbatim>\<open>build_tree\<close> returns, and the two kinds of
  error of a construction.
\<close>

record Tree =
  tree_cells :: "real Cell list"
  tree_positions :: "real list"
  tree_moments :: "real list"
  tree_N :: nat
  tree_ncrit :: nat
  tree_order :: nat
  tree_theta :: real

datatype build_error = InvalidParameters | InvalidGeometry

text \<open>
  Modelled from the spec: whether a particle lies outside the root cell, which has the
  given centre and radius.
\<close>

definition outside_root :: "real Cell \<Rightarrow> point \<Rightarrow> bool" where
  "outside_root c p =
     (case p of (px, py, pz) \<Rightarrow> r c < \<bar>px - x c\<bar> \<or> r c < \<bar>py - y c\<bar> \<or> r c < \<bar>pz - z c\<bar>)"

text \<open>
  Modelled from the spec: \<^verbatim>\<open>build_tree(positions, moments, N, ncrit, order, theta)\<close>, whose
  body is missing. The parameters are checked first, then the positions against the
  root cell, whose centre and radius are inputs of the builder, as is the maximum
  depth; then the cells are built. A construction fails with an error and no tree, or
  gives the tree. The second pass that sets \<open>rmax\<close> changes no other field of a cell and
  is left out.
\<close>

definition build_tree ::
  "nat \<Rightarrow> point \<times> real \<Rightarrow> real list \<Rightarrow> real list \<Rightarrow> nat \<Rightarrow> nat \<Rightarrow> nat \<Rightarrow> real \<Rightarrow>
   build_error + Tree" where
  "build_tree maxdepth root_ball positions moments N ncrit order theta =
     (case root_ball of ((cx, cy, cz), cr) \<Rightarrow>
        if ncrit < 1 \<or> order < 2 \<or> theta \<le> 0 \<or> N = 0 then Inl InvalidParameters
        else if list_ex (\<lambda>i. outside_root (new_cell cx cy cz cr 0 0) (position positions i)) [0..<N]
        then Inl InvalidGeometry
        else Inr \<lparr>tree_cells = build_cells maxdepth ncrit (position positions) N
                                (new_cell cx cy cz cr 0 0),
                  tree_positions = positions, tree_moments = moments,
                  tree_N = N, tree_ncrit = ncrit, tree_order = order, tree_theta = theta\<rparr>)"

text \<open>
  Three properties of a list of cells that the builder keeps, for a maximum depth \<open>D\<close>.
  Well-formed child slots: every cell has eight slots and a level of at most \<open>D\<close>, and
  the slot of an octant whose bit is set holds the index of a later cell, one level
  down. The state of the cells outside a set \<open>K\<close> of cells that are being split: a cell
  at level \<open>D\<close>, or with \<open>nleaf < ncrit\<close>, has no child and \<open>nleaf\<close> particles in its leaf
  list, and a cell above level \<open>D\<close> with \<open>nleaf \<ge> ncrit\<close> has an empty leaf list and a
  child. And growth from one list to a later one: no cell is removed or changes its
  level, no counter goes down, and no cell loses all its children.
\<close>

definition cells_wf :: "nat \<Rightarrow> real Cell list \<Rightarrow> bool" where
  "cells_wf D cs =
     (\<forall>j < length cs. length (child (cs ! j)) = 8 \<and> level (cs ! j) \<le> D \<and>
        (\<forall>oc < 8. bit (nchild (cs ! j)) oc \<longrightarrow>
                    j < child (cs ! j) ! oc \<and> child (cs ! j) ! oc < length cs \<and>
                    level (cs ! (child (cs ! j) ! oc)) = level (cs ! j) + 1))"

definition cells_inv :: "nat \<Rightarrow> nat \<Rightarrow> nat set \<Rightarrow> real Cell list \<Rightarrow> bool" where
  "cells_inv D ncrit K cs =
     (\<forall>j < length cs.
        (level (cs ! j) = D \<or> nleaf (cs ! j) < ncrit \<longrightarrow>
           nchild (cs ! j) = 0 \<and> length (leaf (cs ! j)) = nleaf (cs ! j)) \<and>
        (j \<notin> K \<longrightarrow> level (cs ! j) < D \<longrightarrow> ncrit \<le> nleaf (cs ! j) \<longrightarrow>
           leaf (cs ! j) = [] \<and> nchild (cs ! j) \<noteq> 0))"

definition cells_grow :: "real Cell list \<Rightarrow> real Cell list \<Rightarrow> bool" where
  "cells_grow cs cs' =
     (length cs \<le> length cs' \<and>
      (\<forall>j < length cs. nleaf (cs ! j) \<le> nleaf (cs' ! j) \<and> level (cs' ! j) = level (cs ! j) \<and>
                         (nchild (cs ! j) \<noteq> 0 \<longrightarrow> nchild (cs' ! j) \<noteq> 0)))"

text \<open>
  Three particles in the cell of radius 1 at the origin, and the tree that the builder
  makes of them with \<open>ncrit = 2\<close>: the root is split when the second particle comes.
\<close>

definition ex_positions :: "real list" where
  "ex_positions = [1 / 2, 1 / 2, 1 / 2, - (1 / 2), - (1 / 2), - (1 / 2), 1 / 2, 1 / 2, - (1 / 2)]"

definition ex_moments :: "real list" where
  "ex_moments = [0, 0, 1, 0, 0, 1, 0, 0, 1]"

definition ex_tree :: Tree where
  "ex_tree =
     \<lparr>tree_cells =
        [\<lparr>nleaf = 3, nchild = 137, level = 0, child = [2, 0, 0, 3, 0, 0, 0, 1], M = None, L = None,
          leaf = [], x = 0, y = 0, z = 0, r = 1, rmax = 0, parent = 0\<rparr>,
         \<lparr>nleaf = 1, nchild = 0, level = 1, child = [0, 0, 0, 0, 0, 0, 0, 0], M = None, L = None,
          leaf = [0], x = 1 / 2, y = 1 / 2, z = 1 / 2, r = 1 / 2, rmax = 0, parent = 0\<rparr>,
         \<lparr>nleaf = 1, nchild = 0, level = 1, child = [0, 0, 0, 0, 0, 0, 0, 0], M = None, L = None,
          leaf = [1], x = - (1 / 2), y = - (1 / 2), z = - (1 / 2), r = 1 / 2, rmax = 0, parent = 0\<rparr>,
         \<lparr>nleaf = 1, nchild = 0, level = 1, child = [0, 0, 0, 0, 0, 0, 0, 0], M = None, L = None,
          leaf = [2], x = 1 / 2, y = 1 / 2, z = - (1 / 2), r = 1 / 2, rmax = 0, parent = 0\<rparr>],
      tree_positions = ex_positions, tree_moments = ex_moments, tree_N = 3,
      tree_ncrit = 2, tree_order = 2, tree_theta = 1 / 2\<rparr>"

text \<open>
  The two particles of scenario S1 of the spec, at \<open>(0, 0, 0)\<close> and \<open>(1, 0, 0)\<close> in the cell
  of radius 1 at the origin, and the tree that the builder makes of them with
  \<open>ncrit = 1\<close> and the maximum depth 2: with \<open>ncrit = 1\<close> a cell above the maximum depth
  is split by the first particle that reaches it, so both particles go down to level 2.
\<close>

definition s1_positions :: "real list" where
  "s1_positions = [0, 0, 0, 1, 0, 0]"

definition s1_moments :: "real list" where
  "s1_moments = [0, 0, 1, 0, 0, 1]"

definition s1_tree :: Tree where
  "s1_tree =
     \<lparr>tree_cells =
        [\<lparr>nleaf = 2, nchild = 128, level = 0, child = [0, 0, 0, 0, 0, 0, 0, 1], M = None, L = None,
          leaf = [], x = 0, y = 0, z = 0, r = 1, rmax = 0, parent = 0\<rparr>,
         \<lparr>nleaf = 2, nchild = 3, level = 1, child = [2, 3, 0, 0, 0, 0, 0, 0], M = None, L = None,
          leaf = [], x = 1 / 2, y = 1 / 2, z = 1 / 2, r = 1 / 2, rmax = 0, parent = 0\<rparr>,
         \<lparr>nleaf = 1, nchild = 0, level = 2, child = [0, 0, 0, 0, 0, 0, 0, 0], M = None, L = None,
          leaf = [0], x = 1 / 4, y = 1 / 4, z = 1 / 4, r = 1 / 4, rmax = 0, parent = 1\<rparr>,
         \<lparr>nleaf = 1, nchild = 0, level = 2, child = [0, 0, 0, 0, 0, 0, 0, 0], M = None, L = None,
          leaf = [1], x = 3 / 4, y = 1 / 4, z = 1 / 4, r = 1 / 4, rmax = 0, parent = 1\<rparr>],
      tree_positions = s1_positions, tree_moments = s1_moments, tree_N = 2,
      tree_ncrit = 1, tree_order = 4, tree_theta = 1 / 2\<rparr>"

section \<open>The interaction driver\<close>

text \<open>
  \<^verbatim>\<open>scaling_test.cpp\<close> calls \<^verbatim>\<open>interact_dehnen\<close> at line 121; its body is in no source
  file. The definitions follow section 4.5 of the spec.
\<close>









section \<open>The positions handed on by \<^verbatim>\<open>scaling_test.cpp\<close>\<close>

lemma sz_id: "n < 2 ^ 64 \<Longrightarrow> sz n = n"
  by (simp add: sz_def)

lemma prep_step_Some:
  assumes "3 * i + 2 < length (mu_arr s)" "length (mu_arr s) < 2 ^ 64"
  shows "\<exists>t. prep_step E i s = Some t \<and> r_arr t = r_arr s \<and>
             length (mu_arr t) = length (mu_arr s) \<and>
             particles t = particles s @ [Particle (3 * i) (3 * i)] \<and>
             ndraw t = ndraw s + 6"
proof -
  have a: "sz (3 * i) = 3 * i" "sz (3 * i + 0) = 3 * i" "sz (3 * i + 1) = 3 * i + 1"
     "sz (3 * i + 2) = 3 * i + 2"
    using assms by (simp_all add: sz_id)
  have st: "\<And>a j v. j < length a \<Longrightarrow> store a j (v::'a) = Some (a[j := Some v])"
    by (simp add: store_def)
  have l: "3 * i < length (mu_arr s)" "3 * i + 1 < length (mu_arr s)"
    using assms by simp_all
  show ?thesis
    unfolding prep_step_def Let_def a
    using l assms(1) by (simp only: st length_list_update option.case) simp
qed

lemma prep_loop_upto:
  assumes "3 * N < 2 ^ 64"
  shows "n \<le> N \<Longrightarrow>
         \<exists>s. fold (\<lambda>i s. case s of None \<Rightarrow> None | Some t \<Rightarrow> prep_step E i t)
                   [0..<n] (Some (prep_init E N)) = Some s \<and>
             r_arr s = replicate (3 * N) None \<and>
             length (mu_arr s) = 3 * N \<and>
             particles s = map (\<lambda>i. Particle (3 * i) (3 * i)) [0..<n]"
proof (induction n)
  case 0
  then show ?case using assms by (simp add: prep_init_def new_double_def sz_id)
next
  case (Suc n)
  then obtain s where s: "fold (\<lambda>i s. case s of None \<Rightarrow> None | Some t \<Rightarrow> prep_step E i t)
                   [0..<n] (Some (prep_init E N)) = Some s"
      "r_arr s = replicate (3 * N) None" "length (mu_arr s) = 3 * N"
      "particles s = map (\<lambda>i. Particle (3 * i) (3 * i)) [0..<n]"
    by auto
  have "3 * n + 2 < length (mu_arr s)" using Suc.prems s(3) by simp
  moreover have "length (mu_arr s) < 2 ^ 64" using assms s(3) by simp
  ultimately obtain t where t: "prep_step E n s = Some t" "r_arr t = r_arr s"
     "length (mu_arr t) = length (mu_arr s)"
     "particles t = particles s @ [Particle (3 * n) (3 * n)]"
    using prep_step_Some[of n s E] by blast
  show ?case using s t by simp
qed

lemma prep_loop_result:
  assumes "3 * N < 2 ^ 64"
  shows "\<exists>s. prep_loop E N = Some s \<and> r_arr s = replicate (3 * N) None \<and>
             length (mu_arr s) = 3 * N \<and>
             particles s = map (\<lambda>i. Particle (3 * i) (3 * i)) [0..<N]"
  unfolding prep_loop_def using prep_loop_upto[OF assms, of N E] by simp

text \<open>
  C8. In \<^verbatim>\<open>scaling_test.cpp\<close> the array \<^verbatim>\<open>r\<close> is allocated and never written: in
  every call of \<^verbatim>\<open>evaluate_direct\<close> and of \<^verbatim>\<open>build_tree\<close> there are \<open>Nparticles\<close>
  particles, and each of the three elements that a particle's position pointer leads
  to lies inside \<^verbatim>\<open>r\<close> and is uninitialised, whatever the generator draws. The
  hypothesis says that the size \<open>3 * Nparticles\<close> is computed without wrapping.
\<close>

theorem scaling_test_positions_uninitialised:
  assumes "3 * Nparticles < 2 ^ 64"
  shows "\<exists>cs. scaling_test_calls E Nparticles ncrit maxorder = Some cs \<and> cs \<noteq> [] \<and>
           (\<forall>c \<in> set cs. length (call_particles c) = Nparticles \<and>
              (\<forall>p \<in> set (call_particles c). \<forall>k < 3.
                  p_r p + k < length (call_positions c) \<and>
                  call_positions c ! (p_r p + k) = None))"
proof -
  obtain s where s: "prep_loop E Nparticles = Some s"
      "r_arr s = replicate (3 * Nparticles) None"
      "particles s = map (\<lambda>i. Particle (3 * i) (3 * i)) [0..<Nparticles]"
    using prep_loop_result[OF assms, of E] by blast
  have pos: "\<forall>p \<in> set (particles s). \<forall>k < 3.
               p_r p + k < length (r_arr s) \<and> r_arr s ! (p_r p + k) = None"
    using s(2,3) by auto
  show ?thesis
    using s(1) pos s(3) by (auto simp: scaling_test_calls_def)
qed

theorem scaling_test_positions_uninitialised_witness:
  "3 * (2::nat) < 2 ^ 64 \<and>
   (\<exists>cs. scaling_test_calls real_ops 2 4 3 = Some cs \<and> cs \<noteq> [] \<and>
           (\<forall>c \<in> set cs. length (call_particles c) = 2 \<and>
              (\<forall>p \<in> set (call_particles c). \<forall>k < 3.
                  p_r p + k < length (call_positions c) \<and>
                  call_positions c ! (p_r p + k) = None)))"
  using scaling_test_positions_uninitialised [of 2 real_ops 4 3] by simp

section \<open>The copy assignment of a cell\<close>

text \<open>
  C10. After \<^verbatim>\<open>c = other\<close> the fields nleaf, nchild, level, child, M, L, leaf, x, y, z,
  r and parent of \<open>c\<close> are those of \<open>other\<close>, and \<open>rmax\<close> of \<open>c\<close> is what it was
  before the assignment, whatever \<open>rmax\<close> of \<open>other\<close> is.
\<close>

theorem assign_keeps_rmax:
  "nleaf (assign c other) = nleaf other \<and>
   nchild (assign c other) = nchild other \<and>
   level (assign c other) = level other \<and>
   child (assign c other) = child other \<and>
   M (assign c other) = M other \<and>
   L (assign c other) = L other \<and>
   leaf (assign c other) = leaf other \<and>
   x (assign c other) = x other \<and>
   y (assign c other) = y other \<and>
   z (assign c other) = z other \<and>
   r (assign c other) = r other \<and>
   parent (assign c other) = parent other \<and>
   rmax (assign c other) = rmax c"
  by (simp add: assign_def)

section \<open>The coefficient arrays of \<^verbatim>\<open>scaling_test.cpp\<close>\<close>

lemma size_sub_eq:
  assumes "b \<le> a" "a < 2 ^ 64"
  shows "size_sub a b = a - b"
proof -
  have 1: "sz a = a" "sz b = b" using assms by (simp_all add: sz_def)
  have 2: "a + 2 ^ 64 - b = (a - b) + 2 ^ 64" using assms(1) by linarith
  have "(a + 2 ^ 64 - b) mod 2 ^ 64 = (a - b) mod 2 ^ 64"
    by (simp only: 2 mod_add_self2)
  also have "\<dots> = a - b" using assms(2) by simp
  finally show ?thesis by (simp only: size_sub_def 1)
qed

lemma Nterms_mono: "p \<le> q \<Longrightarrow> Nterms p \<le> Nterms q"
  unfolding Nterms_def by (intro div_le_mono mult_le_mono) simp_all

lemma Nterms_0: "Nterms 0 = 1"
  by (simp add: Nterms_def)

lemma Nterms_pos: "1 \<le> Nterms p"
  using Nterms_mono[of 0 p] by (simp add: Nterms_0)

lemma Nterms_ge: "p \<le> Nterms p"
proof -
  have "6 * p \<le> (p + 1) * (p + 2) * (p + 3)" by (simp add: algebra_simps)
  then show ?thesis by (simp add: Nterms_def)
qed

lemma M_len_eq: "Nterms p < 2 ^ 64 \<Longrightarrow> M_len p = Nterms p - Nterms 0"
  using Nterms_pos[of p] by (simp add: M_len_def size_sub_eq Nterms_0)

lemma L_len_eq:
  assumes "1 \<le> p" "Nterms p < 2 ^ 64"
  shows "L_len p = Nterms (p - 1)"
proof -
  have "p < 2 ^ 64" using Nterms_ge[of p] assms(2) by simp
  then have a: "size_sub p 1 = p - 1" using assms(1) by (simp add: size_sub_eq)
  have "Nterms (p - 1) \<le> Nterms p" by (rule Nterms_mono) simp
  then have "Nterms (p - 1) < 2 ^ 64" using assms(2) by simp
  then show ?thesis unfolding L_len_def a sz_def by simp
qed

lemma fold_point_cell:
  "n \<le> length cs \<Longrightarrow>
   length (fold (point_cell order) [0..<n] cs) = length cs \<and>
   (\<forall>k < length cs. fold (point_cell order) [0..<n] cs ! k =
        (if k < n then (cs ! k)\<lparr>M := Some (sz (k * M_len order)), L := Some (sz (k * L_len order))\<rparr>
         else cs ! k))"
proof (induction n)
  case 0
  then show ?case by simp
next
  case (Suc n)
  then show ?case by (auto simp: point_cell_def nth_list_update)
qed

lemma arena_slice_replicate:
  "off + len \<le> n \<Longrightarrow> arena_slice (replicate n v) off len = replicate len v"
  by (simp add: arena_slice_def min_def)

text \<open>
  C1. For a tree of \<open>length cs\<close> cells built with order \<open>p\<close> (the driver's orders start
  at 2), with \<open>Nterms p = (p+1)(p+2)(p+3)/6\<close>: the stride of \<^verbatim>\<open>M\<close> is
  \<open>Nterms p - Nterms 0\<close> and that of \<^verbatim>\<open>L\<close> is \<open>Nterms (p - 1)\<close>; cell \<open>k\<close> points at
  index \<open>k * M_len\<close> of \<^verbatim>\<open>M\<close> and \<open>k * L_len\<close> of \<^verbatim>\<open>L\<close>; the indices up to
  \<open>(k + 1) * M_len\<close>, where the next cell starts, lie inside the array, so the slice of
  cell \<open>k\<close> has \<open>M_len\<close> elements (likewise \<open>L_len\<close>), all of them zero. The second
  hypothesis says that the sizes are computed without wrapping.
\<close>

theorem arena_slices:
  assumes "2 \<le> p" "length cs * Nterms p < 2 ^ 64" "k < length cs"
  shows "Nterms p = (p + 1) * (p + 2) * (p + 3) div 6 \<and>
         M_len p = Nterms p - Nterms 0 \<and>
         L_len p = Nterms (p - 1) \<and>
         length (cells (allocate E p cs)) = length cs \<and>
         M (cells (allocate E p cs) ! k) = Some (k * M_len p) \<and>
         L (cells (allocate E p cs) ! k) = Some (k * L_len p) \<and>
         (k + 1) * M_len p \<le> length (M_arena (allocate E p cs)) \<and>
         (k + 1) * L_len p \<le> length (L_arena (allocate E p cs)) \<and>
         arena_slice (M_arena (allocate E p cs)) (k * M_len p) (M_len p) = replicate (M_len p) (d_zero E) \<and>
         arena_slice (L_arena (allocate E p cs)) (k * L_len p) (L_len p) = replicate (L_len p) (d_zero E)"
proof -
  have pos: "0 < length cs" using assms(3) by linarith
  have nt: "Nterms p < 2 ^ 64"
  proof -
    have "1 * Nterms p \<le> length cs * Nterms p"
      by (rule mult_le_mono1) (use pos in linarith)
    then have "Nterms p \<le> length cs * Nterms p" by (simp only: mult_1)
    then show ?thesis using assms(2) by (rule le_less_trans)
  qed
  have m: "M_len p = Nterms p - Nterms 0" using nt by (rule M_len_eq)
  have l: "L_len p = Nterms (p - 1)" using assms(1) nt by (simp add: L_len_eq)
  have mle: "M_len p \<le> Nterms p" using m by simp
  have lle: "L_len p \<le> Nterms p" using l Nterms_mono[of "p - 1" p] by simp
  have mtot: "length cs * M_len p < 2 ^ 64"
    by (rule le_less_trans [OF mult_le_mono2 [OF mle] assms(2)])
  have ltot: "length cs * L_len p < 2 ^ 64"
    by (rule le_less_trans [OF mult_le_mono2 [OF lle] assms(2)])
  have kM: "(k + 1) * M_len p \<le> length cs * M_len p"
    using assms(3) by (intro mult_le_mono1) simp
  have kL: "(k + 1) * L_len p \<le> length cs * L_len p"
    using assms(3) by (intro mult_le_mono1) simp
  have "k * M_len p \<le> (k + 1) * M_len p" by (rule mult_le_mono1) simp
  then have kM': "k * M_len p < 2 ^ 64" by (rule le_less_trans [OF le_trans [OF _ kM] mtot])
  have "k * L_len p \<le> (k + 1) * L_len p" by (rule mult_le_mono1) simp
  then have kL': "k * L_len p < 2 ^ 64" by (rule le_less_trans [OF le_trans [OF _ kL] ltot])
  have szM: "sz (length cs * M_len p) = length cs * M_len p" using mtot by (simp only: sz_def mod_less)
  have szL: "sz (length cs * L_len p) = length cs * L_len p" using ltot by (simp only: sz_def mod_less)
  have szkM: "sz (k * M_len p) = k * M_len p" using kM' by (simp only: sz_def mod_less)
  have szkL: "sz (k * L_len p) = k * L_len p" using kL' by (simp only: sz_def mod_less)
  have lenM: "length (M_arena (allocate E p cs)) = length cs * M_len p"
    by (simp add: allocate_def szM)
  have lenL: "length (L_arena (allocate E p cs)) = length cs * L_len p"
    by (simp add: allocate_def szL)
  have cellk: "cells (allocate E p cs) ! k =
      (cs ! k)\<lparr>M := Some (k * M_len p), L := Some (k * L_len p)\<rparr>"
    using fold_point_cell[of "length cs" cs p] assms(3)
    by (simp add: allocate_def szkM szkL)
  have Mk: "M (cells (allocate E p cs) ! k) = Some (k * M_len p)" by (simp add: cellk)
  have Lk: "L (cells (allocate E p cs) ! k) = Some (k * L_len p)" by (simp add: cellk)
  have len: "length (cells (allocate E p cs)) = length cs"
    using fold_point_cell[of "length cs" cs p] by (simp add: allocate_def)
  have kMA: "(k + 1) * M_len p \<le> length (M_arena (allocate E p cs))"
    using kM by (simp only: lenM)
  have kLA: "(k + 1) * L_len p \<le> length (L_arena (allocate E p cs))"
    using kL by (simp only: lenL)
  have offM: "k * M_len p + M_len p \<le> length cs * M_len p" using kM by simp
  have offL: "k * L_len p + L_len p \<le> length cs * L_len p" using kL by simp
  have sM: "arena_slice (M_arena (allocate E p cs)) (k * M_len p) (M_len p) = replicate (M_len p) (d_zero E)"
    using arena_slice_replicate [OF offM] by (simp add: allocate_def szM)
  have sL: "arena_slice (L_arena (allocate E p cs)) (k * L_len p) (L_len p) = replicate (L_len p) (d_zero E)"
    using arena_slice_replicate [OF offL] by (simp add: allocate_def szL)
  show ?thesis
    by (intro conjI) (rule Nterms_def m l len Mk Lk kMA kLA sM sL)+
qed

theorem arena_slices_witness:
  "(2::nat) \<le> 2 \<and> length [cell0, cell0] * Nterms 2 < 2 ^ 64 \<and> 1 < length [cell0, cell0] \<and>
   (Nterms 2 = (2 + 1) * (2 + 2) * (2 + 3) div 6 \<and>
    M_len 2 = Nterms 2 - Nterms 0 \<and>
    L_len 2 = Nterms (2 - 1) \<and>
    length (cells (allocate real_ops 2 [cell0, cell0])) = length [cell0, cell0] \<and>
    M (cells (allocate real_ops 2 [cell0, cell0]) ! 1) = Some (1 * M_len 2) \<and>
    L (cells (allocate real_ops 2 [cell0, cell0]) ! 1) = Some (1 * L_len 2) \<and>
    (1 + 1) * M_len 2 \<le> length (M_arena (allocate real_ops 2 [cell0, cell0])) \<and>
    (1 + 1) * L_len 2 \<le> length (L_arena (allocate real_ops 2 [cell0, cell0])) \<and>
    arena_slice (M_arena (allocate real_ops 2 [cell0, cell0])) (1 * M_len 2) (M_len 2) =
      replicate (M_len 2) (d_zero real_ops) \<and>
    arena_slice (L_arena (allocate real_ops 2 [cell0, cell0])) (1 * L_len 2) (L_len 2) =
      replicate (L_len 2) (d_zero real_ops))"
proof -
  have h: "length [cell0, cell0] * Nterms 2 < 2 ^ 64" by (simp add: Nterms_def)
  have k: "1 < length [cell0, cell0]" by simp
  show ?thesis
    by (rule conjI [OF order_refl conjI [OF h conjI [OF k arena_slices [OF order_refl h k]]]])
qed

section \<open>The driver \<^verbatim>\<open>lazy.cpp\<close>: what a run does\<close>

lemma store3_ok:
  assumes "3 * i + 2 < length a" "length a < 2 ^ 64"
  shows "store3 a i v0 v1 v2 =
         Some (a[3 * i := Some v0, 3 * i + 1 := Some v1, 3 * i + 2 := Some v2])"
proof -
  have a: "sz (3 * i) = 3 * i" "sz (3 * i + 0) = 3 * i" "sz (3 * i + 1) = 3 * i + 1"
     "sz (3 * i + 2) = 3 * i + 2"
    using assms by (simp_all add: sz_id)
  have st: "\<And>b j v. j < length b \<Longrightarrow> store b j (v::'a) = Some (b[j := Some v])"
    by (simp add: store_def)
  have l: "3 * i < length a" "3 * i + 1 < length a"
    using assms by simp_all
  show ?thesis
    unfolding store3_def a
    using l assms(1) by (simp only: st length_list_update option.case)
qed

lemma three_cases: "c < 3 \<Longrightarrow> c = 0 \<or> c = 1 \<or> c = (2::nat)"
  by arith

lemma arrays_step_inv:
  assumes inv: "arrays_inv E N n s" and n: "n < N" and N: "3 * N < 2 ^ 64"
  shows "\<exists>t. arrays_step E n s = Some t \<and> arrays_inv E N (Suc n) t"
proof -
  have lr: "3 * n + 2 < length (a_r s)" "length (a_r s) < 2 ^ 64"
    and lm: "3 * n + 2 < length (a_mu s)" "length (a_mu s) < 2 ^ 64"
    using inv n N by (simp_all add: arrays_inv_def)
  have nd: "a_ndraw s = 6 * n" using inv by (simp add: arrays_inv_def)
  define rs where "rs = (a_r s)[3 * n := Some (position_of E n 0),
      3 * n + 1 := Some (position_of E n 1), 3 * n + 2 := Some (position_of E n 2)]"
  define ms where "ms = (a_mu s)[3 * n := Some (moment_of E n 0),
      3 * n + 1 := Some (moment_of E n 1), 3 * n + 2 := Some (moment_of E n 2)]"
  have step: "\<exists>t. arrays_step E n s = Some t \<and> a_r t = rs \<and> a_mu t = ms \<and> a_ndraw t = 6 * n + 6"
    unfolding arrays_step_def Let_def nd
    by (simp add: store3_ok [OF lr] store3_ok [OF lm] rs_def ms_def position_of_def moment_of_def
          add_ac)
  then obtain t where t: "arrays_step E n s = Some t" "a_r t = rs" "a_mu t = ms"
      "a_ndraw t = 6 * n + 6" by blast
  have old: "\<And>i c. i < n \<Longrightarrow> c < 3 \<Longrightarrow>
               rs ! (3 * i + c) = a_r s ! (3 * i + c) \<and> ms ! (3 * i + c) = a_mu s ! (3 * i + c)"
    by (simp add: rs_def ms_def)
  have new: "rs ! (3 * n) = Some (position_of E n 0)" "rs ! (3 * n + 1) = Some (position_of E n 1)"
       "rs ! (3 * n + 2) = Some (position_of E n 2)"
       "ms ! (3 * n) = Some (moment_of E n 0)" "ms ! (3 * n + 1) = Some (moment_of E n 1)"
       "ms ! (3 * n + 2) = Some (moment_of E n 2)"
    using lr lm by (simp_all add: rs_def ms_def)
  have "arrays_inv E N (Suc n) t"
    unfolding arrays_inv_def
  proof (intro conjI allI impI)
    show "length (a_r t) = 3 * N" using inv by (simp add: t rs_def arrays_inv_def)
    show "length (a_mu t) = 3 * N" using inv by (simp add: t ms_def arrays_inv_def)
    show "a_ndraw t = 6 * Suc n" by (simp add: t)
  next
    fix i c assume i: "i < Suc n" and c: "c < (3::nat)"
    show "a_r t ! (3 * i + c) = Some (position_of E i c)"
    proof (cases "i < n")
      case True
      then show ?thesis using old[OF True c] inv c by (simp add: t arrays_inv_def)
    next
      case False
      then have "i = n" using i by simp
      then show ?thesis using three_cases[OF c] new by (auto simp: t)
    qed
    show "a_mu t ! (3 * i + c) = Some (moment_of E i c)"
    proof (cases "i < n")
      case True
      then show ?thesis using old[OF True c] inv c by (simp add: t arrays_inv_def)
    next
      case False
      then have "i = n" using i by simp
      then show ?thesis using three_cases[OF c] new by (auto simp: t)
    qed
  qed
  then show ?thesis using t(1) by blast
qed

lemma arrays_loop_upto:
  assumes N: "3 * N < 2 ^ 64"
  shows "n \<le> N \<Longrightarrow>
         \<exists>s. fold (\<lambda>i s. case s of None \<Rightarrow> None | Some t \<Rightarrow> arrays_step E i t)
                   [0..<n] (Some (arrays_init E N)) = Some s \<and> arrays_inv E N n s"
proof (induction n)
  case 0
  then show ?case using N by (simp add: arrays_init_def new_double_def sz_id arrays_inv_def)
next
  case (Suc n)
  then obtain s where s: "fold (\<lambda>i s. case s of None \<Rightarrow> None | Some t \<Rightarrow> arrays_step E i t)
                   [0..<n] (Some (arrays_init E N)) = Some s" "arrays_inv E N n s"
    by auto
  have "n < N" using Suc.prems by simp
  from arrays_step_inv[OF s(2) this N] obtain t where
    "arrays_step E n s = Some t" "arrays_inv E N (Suc n) t" by blast
  then show ?case using s(1) by simp
qed

lemma arrays_loop_result:
  assumes "3 * N < 2 ^ 64"
  shows "\<exists>s. arrays_loop E N = Some s \<and> arrays_inv E N N s"
  unfolding arrays_loop_def using arrays_loop_upto[OF assms, of N E] by simp

lemma parse_args_Inr:
  assumes "parse_args E argv = Inr (N, nc, th, mo, ty)"
  shows "5 < length argv \<and> stoul (argv ! 1) = Inr N \<and> stoul (argv ! 2) = Inr nc \<and>
         e_stod E (argv ! 3) = Inr th \<and> stoul (argv ! 4) = Inr mo \<and> stoul (argv ! 5) = Inr ty"
  using assms
  by (auto simp: parse_args_def and_then_def stoul_arg_def stod_arg_def arg_def
           split: sum.splits if_splits parse_error.splits)

lemma order_turn_Inr:
  assumes "order_turn E s (N, nc, th, mo, ty) order Fe = Inr t"
  shows "t_order t = order"
    and "\<exists>tree. e_build_tree E (a_r s) (a_mu s) N nc order th = Some tree \<and>
          t_F_exact t = (if order = 2 then map (snd (e_compute_field_exact E tree Fe)) [0..<N] else Fe) \<and>
          t_F_approx t =
            (if ty = 0
             then map (snd (e_compute_field_fmm E
                    (if order = 2 then fst (e_compute_field_exact E tree Fe) else tree)
                    (replicate N (d_zero E)))) [0..<N]
             else if ty = 1
             then map (snd (e_compute_field_bh E
                    (if order = 2 then fst (e_compute_field_exact E tree Fe) else tree)
                    (replicate N (d_zero E)))) [0..<N]
             else replicate N (d_zero E))"
    and "t_events t =
          [Ev_build_tree (a_r s) (a_mu s) N nc order th] @
          (if order = 2 then [Ev_compute_field_exact] else []) @
          (if ty = 0 then [Ev_compute_field_fmm] else if ty = 1 then [Ev_compute_field_bh] else []) @
          [Ev_file (filename E order N nc th ty) (file_text E N (t_F_exact t) (t_F_approx t))]"
  using assms
  by (auto simp: order_turn_def Let_def split: option.splits prod.splits if_splits)

lemma order_turn_lengths:
  assumes "order_turn E s (N, nc, th, mo, ty) order Fe = Inr t" "length Fe = N"
  shows "length (t_F_exact t) = N" "length (t_F_approx t) = N"
  using order_turn_Inr(2)[OF assms(1)] assms(2) by (auto split: if_splits)

lemma orders_loop_Inr:
  "orders_loop E s (N, nc, th, mo, ty) os Fe = Inr ts \<Longrightarrow> length Fe = N \<Longrightarrow>
   map t_order ts = os \<and>
   (\<forall>t \<in> set ts. \<exists>Fe'. length Fe' = N \<and> order_turn E s (N, nc, th, mo, ty) (t_order t) Fe' = Inr t)"
proof (induction os arbitrary: Fe ts)
  case Nil
  then show ?case by simp
next
  case (Cons a os)
  from Cons.prems(1) obtain t ts' where
    t: "order_turn E s (N, nc, th, mo, ty) a Fe = Inr t"
    and ts': "orders_loop E s (N, nc, th, mo, ty) os (t_F_exact t) = Inr ts'"
    and ts: "ts = t # ts'"
    by (auto simp: and_then_def split: sum.splits)
  have len: "length (t_F_exact t) = N" using order_turn_lengths(1)[OF t Cons.prems(2)] .
  have ord: "t_order t = a" using order_turn_Inr(1)[OF t] .
  from Cons.IH[OF ts' len] ts t ord Cons.prems(2) show ?case by auto
qed

lemma main_Inr:
  assumes "parse_args E argv = Inr (N, nc, th, mo, ty)" "main E argv = Inr res"
  shows "exit_code res = 0 \<and> N < 2 ^ 60 \<and>
         (\<exists>s. arrays_loop E N = Some s \<and>
              orders_loop E s (N, nc, th, mo, ty) [2..<mo] (replicate N (d_zero E)) = Inr (turns res))"
  using assms
  by (auto simp: main_def and_then_def alloc_ok_def split: option.splits sum.splits if_splits)

lemma main_turns:
  assumes "parse_args E argv = Inr (N, nc, th, mo, ty)" "main E argv = Inr res"
  shows "\<exists>s. arrays_inv E N N s \<and> map t_order (turns res) = [2..<mo] \<and>
         (\<forall>t \<in> set (turns res). \<exists>Fe. length Fe = N \<and>
              order_turn E s (N, nc, th, mo, ty) (t_order t) Fe = Inr t)"
proof -
  from main_Inr[OF assms] obtain s where
    N: "N < 2 ^ 60" and s: "arrays_loop E N = Some s"
    and ol: "orders_loop E s (N, nc, th, mo, ty) [2..<mo] (replicate N (d_zero E)) = Inr (turns res)"
    by blast
  have "3 * N < 2 ^ 64" using N by simp
  from arrays_loop_result[OF this, of E] s have inv: "arrays_inv E N N s" by simp
  from orders_loop_Inr[OF ol] inv show ?thesis by auto
qed

lemmas stoul_simps = stoul_def isspace_def isdigit_def digits_value_def Let_def size_sub_def sz_def

lemma ex_parse: "parse_args real_env ex_argv = Inr (2, 8, 1 / 2, 4, 0)"
  by (simp add: ex_argv_def parse_args_def stoul_arg_def stod_arg_def arg_def and_then_def
        stoul_simps real_env_def)

lemma ex_arrays:
  "arrays_loop real_env 2 =
     Some \<lparr>a_r = ex_r, a_mu = ex_mu, a_ndraw = 12,
           a_mux_total = 2 / 10 ^ 24, a_muy_total = 0, a_muz_total = 0\<rparr>"
  apply (simp add: arrays_loop_def arrays_init_def new_double_def sz_def arrays_step_def
      store3_def store_def moment_norm_def Let_def upt_rec real_env_def ex_r_def ex_mu_def)
  apply (simp add: eval_nat_numeral)
  done

lemma ex_main: "main real_env ex_argv = Inr ex_run"
  apply (simp add: main_def ex_parse ex_arrays and_then_def alloc_ok_def sz_def upt_rec
      order_turn_def ex_run_def)
  apply (simp add: real_env_def filename_def file_text_def poterr_def to_string.simps upt_rec)
  done

text \<open>
  C5. The build entry that \<^verbatim>\<open>lazy.cpp\<close> uses is
  \<^verbatim>\<open>build_tree(positions, moments, N, ncrit, order, theta)\<close>: in a run that returns, there
  is one turn for each order from 2 below \<^verbatim>\<open>maxorder\<close>, and it starts with that call; the
  two arrays have \<open>3 * N\<close> elements, all written, and the element \<open>3 * i + c\<close> is
  component \<open>c\<close> of particle \<open>i\<close> (for the moments: \<^verbatim>\<open>mux\<close>, \<^verbatim>\<open>muy\<close>, \<^verbatim>\<open>muz\<close>). All
  that the run then does with the tree it gets is to call \<^verbatim>\<open>compute_field_exact\<close>,
  \<^verbatim>\<open>compute_field_fmm\<close> and \<^verbatim>\<open>compute_field_bh\<close> on it: the first in the turn of order 2,
  the second when \<^verbatim>\<open>type\<close> is 0, the third when it is 1.
\<close>

theorem lazy_build_tree_arguments:
  assumes "parse_args E argv = Inr (N, nc, th, mo, ty)" and "main E argv = Inr res"
  shows "map t_order (turns res) = [2..<mo] \<and>
         (\<forall>t \<in> set (turns res). \<exists>rs ms.
             hd (t_events t) = Ev_build_tree rs ms N nc (t_order t) th \<and>
             length rs = 3 * N \<and> length ms = 3 * N \<and>
             (\<forall>i < N. \<forall>c < 3. rs ! (3 * i + c) = Some (position_of E i c) \<and>
                                  ms ! (3 * i + c) = Some (moment_of E i c)) \<and>
             (\<forall>ev \<in> set (tl (t_events t)).
                 ev = Ev_compute_field_exact \<or> ev = Ev_compute_field_fmm \<or>
                 ev = Ev_compute_field_bh \<or> is_file ev) \<and>
             (t_order t = 2 \<longrightarrow> Ev_compute_field_exact \<in> set (t_events t)) \<and>
             (ty = 0 \<longrightarrow> Ev_compute_field_fmm \<in> set (t_events t)) \<and>
             (ty = 1 \<longrightarrow> Ev_compute_field_bh \<in> set (t_events t)))"
proof -
  from main_turns[OF assms] obtain s where
    inv: "arrays_inv E N N s" and ords: "map t_order (turns res) = [2..<mo]"
    and turn: "\<forall>t \<in> set (turns res). \<exists>Fe. length Fe = N \<and>
              order_turn E s (N, nc, th, mo, ty) (t_order t) Fe = Inr t"
    by blast
  have each: "\<exists>rs ms.
             hd (t_events t) = Ev_build_tree rs ms N nc (t_order t) th \<and>
             length rs = 3 * N \<and> length ms = 3 * N \<and>
             (\<forall>i < N. \<forall>c < 3. rs ! (3 * i + c) = Some (position_of E i c) \<and>
                                  ms ! (3 * i + c) = Some (moment_of E i c)) \<and>
             (\<forall>ev \<in> set (tl (t_events t)).
                 ev = Ev_compute_field_exact \<or> ev = Ev_compute_field_fmm \<or>
                 ev = Ev_compute_field_bh \<or> is_file ev) \<and>
             (t_order t = 2 \<longrightarrow> Ev_compute_field_exact \<in> set (t_events t)) \<and>
             (ty = 0 \<longrightarrow> Ev_compute_field_fmm \<in> set (t_events t)) \<and>
             (ty = 1 \<longrightarrow> Ev_compute_field_bh \<in> set (t_events t))"
    if t: "t \<in> set (turns res)" for t
  proof -
    from turn t obtain Fe where
      ot: "order_turn E s (N, nc, th, mo, ty) (t_order t) Fe = Inr t" by blast
    note ev = order_turn_Inr(3)[OF ot]
    show ?thesis
      apply (rule exI[of _ "a_r s"], rule exI[of _ "a_mu s"])
      using inv by (auto simp: ev arrays_inv_def)
  qed
  show ?thesis
  proof (intro conjI ballI)
    show "map t_order (turns res) = [2..<mo]" by (rule ords)
  next
    fix t assume "t \<in> set (turns res)"
    then show "\<exists>rs ms.
             hd (t_events t) = Ev_build_tree rs ms N nc (t_order t) th \<and>
             length rs = 3 * N \<and> length ms = 3 * N \<and>
             (\<forall>i < N. \<forall>c < 3. rs ! (3 * i + c) = Some (position_of E i c) \<and>
                                  ms ! (3 * i + c) = Some (moment_of E i c)) \<and>
             (\<forall>ev \<in> set (tl (t_events t)).
                 ev = Ev_compute_field_exact \<or> ev = Ev_compute_field_fmm \<or>
                 ev = Ev_compute_field_bh \<or> is_file ev) \<and>
             (t_order t = 2 \<longrightarrow> Ev_compute_field_exact \<in> set (t_events t)) \<and>
             (ty = 0 \<longrightarrow> Ev_compute_field_fmm \<in> set (t_events t)) \<and>
             (ty = 1 \<longrightarrow> Ev_compute_field_bh \<in> set (t_events t))"
      by (rule each)
  qed
qed

theorem lazy_build_tree_arguments_witness:
  "parse_args real_env ex_argv = Inr (2, 8, 1 / 2, 4, 0) \<and> main real_env ex_argv = Inr ex_run \<and>
   map t_order (turns ex_run) = [2..<4] \<and>
   (\<exists>rs ms. hd (t_events (hd (turns ex_run))) = Ev_build_tree rs ms 2 8 2 (1 / 2) \<and>
      length rs = 3 * 2 \<and> length ms = 3 * 2 \<and>
      rs ! (3 * 1 + 0) = Some (position_of real_env 1 0) \<and>
      ms ! (3 * 1 + 0) = Some (moment_of real_env 1 0)) \<and>
   Ev_compute_field_exact \<in> set (t_events (hd (turns ex_run)))"
proof -
  have t: "hd (turns ex_run) \<in> set (turns ex_run)" by (simp add: ex_run_def)
  have o: "t_order (hd (turns ex_run)) = 2" by (simp add: ex_run_def)
  note th = lazy_build_tree_arguments [OF ex_parse ex_main]
  have 1: "map t_order (turns ex_run) = [2..<4]" using th by (rule conjunct1)
  from th t obtain rs ms where
    b: "hd (t_events (hd (turns ex_run))) = Ev_build_tree rs ms 2 8 (t_order (hd (turns ex_run))) (1 / 2)"
       "length rs = 3 * 2" "length ms = 3 * 2"
       "\<forall>i < 2. \<forall>c < 3. rs ! (3 * i + c) = Some (position_of real_env i c) \<and>
                                  ms ! (3 * i + c) = Some (moment_of real_env i c)"
    and e: "t_order (hd (turns ex_run)) = 2 \<longrightarrow>
            Ev_compute_field_exact \<in> set (t_events (hd (turns ex_run)))"
    by (elim conjE) (drule (1) bspec, blast)
  have 2: "rs ! (3 * 1 + 0) = Some (position_of real_env 1 0)"
          "ms ! (3 * 1 + 0) = Some (moment_of real_env 1 0)"
    using b(4) [rule_format, of 1 0] by simp_all
  have 3: "Ev_compute_field_exact \<in> set (t_events (hd (turns ex_run)))" using e o by simp
  have 4: "\<exists>rs ms. hd (t_events (hd (turns ex_run))) = Ev_build_tree rs ms 2 8 2 (1 / 2) \<and>
      length rs = 3 * 2 \<and> length ms = 3 * 2 \<and>
      rs ! (3 * 1 + 0) = Some (position_of real_env 1 0) \<and>
      ms ! (3 * 1 + 0) = Some (moment_of real_env 1 0)"
    using b(1,2,3) 2 unfolding o by blast
  show ?thesis
    by (intro conjI) (rule ex_parse ex_main 1 4 3)+
qed

text \<open>
  C6. A run of \<^verbatim>\<open>lazy Nparticles ncrit theta maxorder type\<close> that returns has the exit
  code 0; \<^verbatim>\<open>type\<close> is the value of \<^verbatim>\<open>argv[5]\<close>; when it is 0, every turn of the loop
  calls \<^verbatim>\<open>compute_field_fmm\<close> and not \<^verbatim>\<open>compute_field_bh\<close>, and \<^verbatim>\<open>F_approx\<close> is what
  \<^verbatim>\<open>compute_field_fmm\<close> leaves in the zero-filled vector; when it is 1, the same holds
  with the two methods exchanged.
\<close>

theorem lazy_type_selects_method:
  assumes "parse_args E argv = Inr (N, nc, th, mo, ty)" and "main E argv = Inr res"
  shows "exit_code res = 0 \<and> stoul (argv ! 5) = Inr ty \<and>
         (\<forall>t \<in> set (turns res).
            (ty = 0 \<longrightarrow>
               Ev_compute_field_fmm \<in> set (t_events t) \<and>
               Ev_compute_field_bh \<notin> set (t_events t) \<and>
               (\<exists>tree. t_F_approx t =
                  map (snd (e_compute_field_fmm E tree (replicate N (d_zero E)))) [0..<N])) \<and>
            (ty = 1 \<longrightarrow>
               Ev_compute_field_bh \<in> set (t_events t) \<and>
               Ev_compute_field_fmm \<notin> set (t_events t) \<and>
               (\<exists>tree. t_F_approx t =
                  map (snd (e_compute_field_bh E tree (replicate N (d_zero E)))) [0..<N])))"
proof (intro conjI ballI)
  show "exit_code res = 0" using main_Inr[OF assms] by simp
  show "stoul (argv ! 5) = Inr ty" using parse_args_Inr[OF assms(1)] by simp
next
  fix t assume t: "t \<in> set (turns res)"
  from main_turns[OF assms] t obtain s Fe where
    ot: "order_turn E s (N, nc, th, mo, ty) (t_order t) Fe = Inr t" by blast
  note ev = order_turn_Inr(3)[OF ot]
  from order_turn_Inr(2)[OF ot] obtain tree where
    fa: "t_F_approx t =
            (if ty = 0
             then map (snd (e_compute_field_fmm E
                    (if t_order t = 2 then fst (e_compute_field_exact E tree Fe) else tree)
                    (replicate N (d_zero E)))) [0..<N]
             else if ty = 1
             then map (snd (e_compute_field_bh E
                    (if t_order t = 2 then fst (e_compute_field_exact E tree Fe) else tree)
                    (replicate N (d_zero E)))) [0..<N]
             else replicate N (d_zero E))" by blast
  show "ty = 0 \<longrightarrow>
               Ev_compute_field_fmm \<in> set (t_events t) \<and>
               Ev_compute_field_bh \<notin> set (t_events t) \<and>
               (\<exists>tree. t_F_approx t =
                  map (snd (e_compute_field_fmm E tree (replicate N (d_zero E)))) [0..<N])"
  proof
    assume z: "ty = 0"
    have "\<exists>tree. t_F_approx t =
                  map (snd (e_compute_field_fmm E tree (replicate N (d_zero E)))) [0..<N]"
      using fa z by (intro exI[of _ "if t_order t = 2 then fst (e_compute_field_exact E tree Fe) else tree"]) simp
    then show "Ev_compute_field_fmm \<in> set (t_events t) \<and>
               Ev_compute_field_bh \<notin> set (t_events t) \<and>
               (\<exists>tree. t_F_approx t =
                  map (snd (e_compute_field_fmm E tree (replicate N (d_zero E)))) [0..<N])"
      using z by (simp add: ev)
  qed
  show "ty = 1 \<longrightarrow>
               Ev_compute_field_bh \<in> set (t_events t) \<and>
               Ev_compute_field_fmm \<notin> set (t_events t) \<and>
               (\<exists>tree. t_F_approx t =
                  map (snd (e_compute_field_bh E tree (replicate N (d_zero E)))) [0..<N])"
  proof
    assume z: "ty = 1"
    have "\<exists>tree. t_F_approx t =
                  map (snd (e_compute_field_bh E tree (replicate N (d_zero E)))) [0..<N]"
      using fa z by (intro exI[of _ "if t_order t = 2 then fst (e_compute_field_exact E tree Fe) else tree"]) simp
    then show "Ev_compute_field_bh \<in> set (t_events t) \<and>
               Ev_compute_field_fmm \<notin> set (t_events t) \<and>
               (\<exists>tree. t_F_approx t =
                  map (snd (e_compute_field_bh E tree (replicate N (d_zero E)))) [0..<N])"
      using z by (simp add: ev)
  qed
qed

theorem lazy_type_selects_method_witness:
  "parse_args real_env ex_argv = Inr (2, 8, 1 / 2, 4, 0) \<and> main real_env ex_argv = Inr ex_run \<and>
   exit_code ex_run = 0 \<and> stoul (ex_argv ! 5) = Inr 0 \<and>
   Ev_compute_field_fmm \<in> set (t_events (hd (turns ex_run))) \<and>
   Ev_compute_field_bh \<notin> set (t_events (hd (turns ex_run)))"
proof -
  have t: "hd (turns ex_run) \<in> set (turns ex_run)" by (simp add: ex_run_def)
  note th = lazy_type_selects_method [OF ex_parse ex_main]
  have 1: "exit_code ex_run = 0" using th by (rule conjunct1)
  have 2: "stoul (ex_argv ! 5) = Inr 0" using th by (elim conjE)
  have "\<forall>t \<in> set (turns ex_run).
            ((0::nat) = 0 \<longrightarrow>
               Ev_compute_field_fmm \<in> set (t_events t) \<and>
               Ev_compute_field_bh \<notin> set (t_events t) \<and>
               (\<exists>tree. t_F_approx t =
                  map (snd (e_compute_field_fmm real_env tree (replicate 2 (d_zero real_env)))) [0..<2]))"
    using th by blast
  note c = this [rule_format, OF t refl]
  have 3: "Ev_compute_field_fmm \<in> set (t_events (hd (turns ex_run)))"
    using c by (rule conjunct1)
  have 4: "Ev_compute_field_bh \<notin> set (t_events (hd (turns ex_run)))"
    using c by (elim conjE)
  show ?thesis
    by (intro conjI) (rule ex_parse ex_main 1 2 3 4)+
qed










text \<open>
  C9, as amended. \<^verbatim>\<open>main\<close> converts \<^verbatim>\<open>argv[1]\<close> to \<^verbatim>\<open>argv[5]\<close> without looking at
  \<^verbatim>\<open>argc\<close>. With four arguments after the program name no run returns, and when the
  first four convert, the run ends at the null pointer \<^verbatim>\<open>argv[5]\<close>. As first stated
  (every run with four arguments reaches \<^verbatim>\<open>argv[5]\<close>) the claim fails: a run whose
  first argument is \<^verbatim>\<open>x\<close> ends in the conversion of \<^verbatim>\<open>argv[1]\<close>.
\<close>

theorem lazy_four_arguments:
  assumes "length argv = 5"
  shows "(\<exists>f. main E argv = Inl f) \<and>
         ((\<exists>a. stoul (argv ! 1) = Inr a) \<and> (\<exists>b. stoul (argv ! 2) = Inr b) \<and>
          (\<exists>c. e_stod E (argv ! 3) = Inr c) \<and> (\<exists>d. stoul (argv ! 4) = Inr d) \<longrightarrow>
          main E argv = Inl (Null_argument 5))"
proof
  have no: "parse_args E argv \<noteq> Inr P" for P
  proof
    assume "parse_args E argv = Inr P"
    then show False using parse_args_Inr[of E argv] assms by (cases P) auto
  qed
  obtain f where "parse_args E argv = Inl f"
  proof (cases "parse_args E argv")
    case (Inl f)
    then show ?thesis by (rule that)
  next
    case (Inr P)
    then show ?thesis using no [of P] by simp
  qed
  then have "main E argv = Inl f" by (simp add: main_def and_then_def)
  then show "\<exists>f. main E argv = Inl f" ..
next
  show "(\<exists>a. stoul (argv ! 1) = Inr a) \<and> (\<exists>b. stoul (argv ! 2) = Inr b) \<and>
          (\<exists>c. e_stod E (argv ! 3) = Inr c) \<and> (\<exists>d. stoul (argv ! 4) = Inr d) \<longrightarrow>
          main E argv = Inl (Null_argument 5)"
    using assms
    by (auto simp: main_def parse_args_def and_then_def stoul_arg_def stod_arg_def arg_def)
qed

theorem lazy_four_arguments_witness:
  "length [''lazy'', ''2'', ''8'', ''0.5'', ''4''] = 5 \<and>
   stoul ([''lazy'', ''2'', ''8'', ''0.5'', ''4''] ! 1) = Inr 2 \<and>
   stoul ([''lazy'', ''2'', ''8'', ''0.5'', ''4''] ! 2) = Inr 8 \<and>
   e_stod real_env ([''lazy'', ''2'', ''8'', ''0.5'', ''4''] ! 3) = Inr (1 / 2) \<and>
   stoul ([''lazy'', ''2'', ''8'', ''0.5'', ''4''] ! 4) = Inr 4 \<and>
   main real_env [''lazy'', ''2'', ''8'', ''0.5'', ''4''] = Inl (Null_argument 5)"
proof -
  have l: "length [''lazy'', ''2'', ''8'', ''0.5'', ''4''] = 5" by simp
  have 1: "stoul ([''lazy'', ''2'', ''8'', ''0.5'', ''4''] ! 1) = Inr 2"
    and 2: "stoul ([''lazy'', ''2'', ''8'', ''0.5'', ''4''] ! 2) = Inr 8"
    and 4: "stoul ([''lazy'', ''2'', ''8'', ''0.5'', ''4''] ! 4) = Inr 4"
    by (simp_all add: stoul_simps)
  have 3: "e_stod real_env ([''lazy'', ''2'', ''8'', ''0.5'', ''4''] ! 3) = Inr (1 / 2)"
    by (simp add: real_env_def)
  have "main real_env [''lazy'', ''2'', ''8'', ''0.5'', ''4''] = Inl (Null_argument 5)"
    using lazy_four_arguments [OF l, of real_env, THEN conjunct2] 1 2 3 4 by blast
  then show ?thesis using l 1 2 3 4 by (intro conjI)
qed

theorem lazy_four_arguments_counterexample:
  "length [''lazy'', ''x'', ''8'', ''0.5'', ''4''] = 5 \<and>
   main real_env [''lazy'', ''x'', ''8'', ''0.5'', ''4''] = Inl (Invalid_argument 1) \<and>
   main real_env [''lazy'', ''x'', ''8'', ''0.5'', ''4''] \<noteq> Inl (Null_argument 5)"
  by (simp add: main_def parse_args_def and_then_def stoul_arg_def arg_def stoul_simps)

section \<open>The builder keeps the leaves and the split cells apart\<close>

lemma octant_of_less: "octant_of c p < 8"
  by (cases p) (simp add: octant_of_def)

lemma bit_nonzero: "bit (n::nat) oc \<Longrightarrow> n \<noteq> 0"
proof
  assume "bit n oc" "n = 0"
  then show False by simp
qed

lemma cells_grow_refl: "cells_grow cs cs"
  by (simp add: cells_grow_def)

lemma cells_grow_trans:
  assumes "cells_grow a b" "cells_grow b c"
  shows "cells_grow a c"
  unfolding cells_grow_def
proof (intro conjI allI impI)
  show "length a \<le> length c" using assms by (simp add: cells_grow_def)
next
  fix j assume j: "j < length a"
  then have jb: "j < length b" using assms(1) by (simp add: cells_grow_def)
  show "nleaf (a ! j) \<le> nleaf (c ! j)"
    using assms j jb by (auto simp: cells_grow_def intro: le_trans)
  show "level (c ! j) = level (a ! j)"
    using assms j jb by (simp add: cells_grow_def)
  assume "nchild (a ! j) \<noteq> 0"
  then show "nchild (c ! j) \<noteq> 0"
    using assms j jb by (simp add: cells_grow_def)
qed

lemma add_child_length: "length (add_child cs oc p) = Suc (length cs)"
  by (simp add: add_child_def Let_def)

lemma add_child_nth:
  assumes "p < length cs" "j < length cs"
  shows "add_child cs oc p ! j =
         (if j = p then (cs ! p)\<lparr>nchild := set_bit oc (nchild (cs ! p)),
                                 child := (child (cs ! p))[oc := length cs]\<rparr>
          else cs ! j)"
  using assms by (simp add: add_child_def Let_def nth_append nth_list_update)

lemma add_child_last:
  "nleaf (add_child cs oc p ! length cs) = 0 \<and> nchild (add_child cs oc p ! length cs) = 0 \<and>
   leaf (add_child cs oc p ! length cs) = [] \<and> length (child (add_child cs oc p ! length cs)) = 8 \<and>
   level (add_child cs oc p ! length cs) = level (cs ! p) + 1"
  by (simp add: add_child_def Let_def nth_append new_cell_def)

lemma add_child_level:
  assumes "p < length cs" "j < length cs"
  shows "level (add_child cs oc p ! j) = level (cs ! j)"
  using assms by (simp add: add_child_nth)

lemma add_child_wf:
  assumes "cells_wf D cs" "p < length cs" "oc < 8" "level (cs ! p) < D"
  shows "cells_wf D (add_child cs oc p)"
  unfolding cells_wf_def
proof (intro allI impI)
  fix j assume j: "j < length (add_child cs oc p)"
  show "length (child (add_child cs oc p ! j)) = 8 \<and> level (add_child cs oc p ! j) \<le> D \<and>
        (\<forall>o'<8. bit (nchild (add_child cs oc p ! j)) o' \<longrightarrow>
            j < child (add_child cs oc p ! j) ! o' \<and>
            child (add_child cs oc p ! j) ! o' < length (add_child cs oc p) \<and>
            level (add_child cs oc p ! (child (add_child cs oc p ! j) ! o')) =
              level (add_child cs oc p ! j) + 1)"
  proof (cases "j < length cs")
    case True
    have wfj: "length (child (cs ! j)) = 8" "level (cs ! j) \<le> D"
       "\<And>o'. o' < 8 \<Longrightarrow> bit (nchild (cs ! j)) o' \<Longrightarrow>
           j < child (cs ! j) ! o' \<and> child (cs ! j) ! o' < length cs \<and>
           level (cs ! (child (cs ! j) ! o')) = level (cs ! j) + 1"
      using assms(1) True by (auto simp: cells_wf_def)
    have lj: "level (add_child cs oc p ! j) = level (cs ! j)"
      using add_child_level[OF assms(2) True] .
    have len: "length (child (add_child cs oc p ! j)) = 8"
      using wfj(1) assms(2) True by (auto simp: add_child_nth)
    have slots: "j < child (add_child cs oc p ! j) ! o' \<and>
            child (add_child cs oc p ! j) ! o' < length (add_child cs oc p) \<and>
            level (add_child cs oc p ! (child (add_child cs oc p ! j) ! o')) =
              level (add_child cs oc p ! j) + 1"
      if o': "o' < 8" and b: "bit (nchild (add_child cs oc p ! j)) o'" for o'
    proof (cases "j = p \<and> o' = oc")
      case True
      then have "child (add_child cs oc p ! j) ! o' = length cs"
        using assms(2,3) wfj(1) by (simp add: add_child_nth)
      then show ?thesis
        using True assms(2) add_child_last[of cs oc p] lj
        by (simp add: add_child_length)
    next
      case False
      have same: "child (add_child cs oc p ! j) ! o' = child (cs ! j) ! o'"
        using False assms(2) \<open>j < length cs\<close> by (auto simp: add_child_nth)
      have b': "bit (nchild (cs ! j)) o'"
        using b False assms(2) \<open>j < length cs\<close>
        by (auto simp: add_child_nth bit_set_bit_iff split: if_splits)
      from wfj(3)[OF o' b'] have w: "j < child (cs ! j) ! o'" "child (cs ! j) ! o' < length cs"
         "level (cs ! (child (cs ! j) ! o')) = level (cs ! j) + 1" by simp_all
      show ?thesis
        using w lj add_child_level[OF assms(2) w(2)]
        by (simp add: same add_child_length)
    qed
    show ?thesis using len lj wfj(2) slots by simp
  next
    case False
    then have "j = length cs" using j by (simp add: add_child_length)
    then show ?thesis using add_child_last[of cs oc p] assms(4) by simp
  qed
qed

lemma add_child_inv:
  assumes "cells_inv D ncrit K cs" "p < length cs" "ncrit \<le> nleaf (cs ! p)" "1 \<le> ncrit"
          "level (cs ! p) < D"
  shows "cells_inv D ncrit K (add_child cs oc p)"
  unfolding cells_inv_def
proof (intro allI impI)
  fix j assume j: "j < length (add_child cs oc p)"
  show "(level (add_child cs oc p ! j) = D \<or> nleaf (add_child cs oc p ! j) < ncrit \<longrightarrow>
         nchild (add_child cs oc p ! j) = 0 \<and>
         length (leaf (add_child cs oc p ! j)) = nleaf (add_child cs oc p ! j)) \<and>
        (j \<notin> K \<longrightarrow> level (add_child cs oc p ! j) < D \<longrightarrow> ncrit \<le> nleaf (add_child cs oc p ! j) \<longrightarrow>
         leaf (add_child cs oc p ! j) = [] \<and> nchild (add_child cs oc p ! j) \<noteq> 0)"
  proof (cases "j < length cs")
    case True
    then have ij: "(level (cs ! j) = D \<or> nleaf (cs ! j) < ncrit \<longrightarrow>
           nchild (cs ! j) = 0 \<and> length (leaf (cs ! j)) = nleaf (cs ! j)) \<and>
        (j \<notin> K \<longrightarrow> level (cs ! j) < D \<longrightarrow> ncrit \<le> nleaf (cs ! j) \<longrightarrow>
           leaf (cs ! j) = [] \<and> nchild (cs ! j) \<noteq> 0)"
      using assms(1) by (simp add: cells_inv_def)
    have sb: "set_bit oc (nchild (cs ! p)) \<noteq> 0"
      by (rule bit_nonzero[of _ oc]) (simp add: bit_set_bit_iff)
    show ?thesis
      using ij True assms(2,3,5) sb by (auto simp: add_child_nth)
  next
    case False
    then have "j = length cs" using j by (simp add: add_child_length)
    then show ?thesis using add_child_last[of cs oc p] assms(4) by simp
  qed
qed

lemma add_child_grow:
  assumes "p < length cs"
  shows "cells_grow cs (add_child cs oc p)"
proof -
  have sb: "set_bit oc (nchild (cs ! p)) \<noteq> 0"
    by (rule bit_nonzero[of _ oc]) (simp add: bit_set_bit_iff)
  show ?thesis
    using assms sb by (auto simp: cells_grow_def add_child_length add_child_nth)
qed

lemma add_child_bit:
  assumes "p < length cs"
  shows "bit (nchild (add_child cs oc p ! p)) oc"
  using assms by (simp add: add_child_nth bit_set_bit_iff)

lemma ensure_child_props:
  assumes "cells_wf D cs" "cells_inv D ncrit K cs" "p < length cs" "oc < 8"
          "ncrit \<le> nleaf (cs ! p)" "1 \<le> ncrit" "level (cs ! p) < D"
  shows "cells_wf D (ensure_child cs p oc)" "cells_inv D ncrit K (ensure_child cs p oc)"
        "cells_grow cs (ensure_child cs p oc)" "bit (nchild (ensure_child cs p oc ! p)) oc"
  using assms
  by (simp_all add: ensure_child_def add_child_wf add_child_inv add_child_grow add_child_bit
        cells_grow_refl)

lemma nth_update:
  "j < length cs \<Longrightarrow> cs[k := c] ! j = (if j = k then c else cs ! j)"
  by auto

lemma update_wf:
  assumes "cells_wf D cs" "child c' = child (cs ! k)" "nchild c' = nchild (cs ! k)"
          "level c' = level (cs ! k)"
  shows "cells_wf D (cs[k := c'])"
  unfolding cells_wf_def
proof (intro allI impI)
  fix j assume "j < length (cs[k := c'])"
  then have j: "j < length cs" by simp
  have wfj: "length (child (cs ! j)) = 8" "level (cs ! j) \<le> D"
       "\<And>o'. o' < 8 \<Longrightarrow> bit (nchild (cs ! j)) o' \<Longrightarrow>
           j < child (cs ! j) ! o' \<and> child (cs ! j) ! o' < length cs \<and>
           level (cs ! (child (cs ! j) ! o')) = level (cs ! j) + 1"
    using assms(1) j by (auto simp: cells_wf_def)
  have same: "child (cs[k := c'] ! j) = child (cs ! j)" "nchild (cs[k := c'] ! j) = nchild (cs ! j)"
    using j assms(2,3) by (auto simp: nth_update)
  have lev: "\<And>m. m < length cs \<Longrightarrow> level (cs[k := c'] ! m) = level (cs ! m)"
    using assms(4) by (auto simp: nth_update)
  show "length (child (cs[k := c'] ! j)) = 8 \<and> level (cs[k := c'] ! j) \<le> D \<and>
        (\<forall>oc<8. bit (nchild (cs[k := c'] ! j)) oc \<longrightarrow>
            j < child (cs[k := c'] ! j) ! oc \<and> child (cs[k := c'] ! j) ! oc < length (cs[k := c']) \<and>
            level (cs[k := c'] ! (child (cs[k := c'] ! j) ! oc)) = level (cs[k := c'] ! j) + 1)"
    unfolding same using wfj lev[OF j] lev by auto
qed

lemma update_grow:
  assumes "nleaf (cs ! k) \<le> nleaf c'" "nchild (cs ! k) \<noteq> 0 \<longrightarrow> nchild c' \<noteq> 0"
          "level c' = level (cs ! k)"
  shows "cells_grow cs (cs[k := c'])"
  using assms unfolding cells_grow_def by (auto simp: nth_update)

lemma update_inv:
  assumes "cells_inv D ncrit K' cs" "K' \<subseteq> insert k K"
    and "level c' = D \<or> nleaf c' < ncrit \<longrightarrow> nchild c' = 0 \<and> length (leaf c') = nleaf c'"
    and "k \<notin> K \<longrightarrow> level c' < D \<longrightarrow> ncrit \<le> nleaf c' \<longrightarrow> leaf c' = [] \<and> nchild c' \<noteq> 0"
  shows "cells_inv D ncrit K (cs[k := c'])"
  using assms unfolding cells_inv_def by (auto simp: nth_update)

lemma builder_inv:
  "\<forall>K. 1 \<le> ncrit \<longrightarrow> k < length cs \<longrightarrow> cells_wf D cs \<longrightarrow> cells_inv D ncrit K cs \<longrightarrow>
      (\<forall>j \<in> K. j < k) \<longrightarrow> level (cs ! k) + depth = D \<longrightarrow>
      cells_wf D (insert_particle depth ncrit pos cs k i) \<and>
      cells_inv D ncrit K (insert_particle depth ncrit pos cs k i) \<and>
      cells_grow cs (insert_particle depth ncrit pos cs k i)"
  and
  "\<forall>K. 1 \<le> ncrit \<longrightarrow> p < length cs \<longrightarrow> cells_wf D cs \<longrightarrow> cells_inv D ncrit (insert p K) cs \<longrightarrow>
      (\<forall>j \<in> K. j < p) \<longrightarrow> ncrit \<le> nleaf (cs ! p) \<longrightarrow> level (cs ! p) + Suc depth = D \<longrightarrow>
      cells_wf D (split_cell depth ncrit pos cs p ls) \<and>
      cells_inv D ncrit (insert p K) (split_cell depth ncrit pos cs p ls) \<and>
      cells_grow cs (split_cell depth ncrit pos cs p ls) \<and>
      (ls \<noteq> [] \<longrightarrow> nchild (split_cell depth ncrit pos cs p ls ! p) \<noteq> 0)"
proof (induction depth ncrit pos cs k i and depth ncrit pos cs p ls
       rule: insert_particle_split_cell.induct)
  case (1 ncrit pos cs k i)
  show ?case
  proof (intro allI impI)
    fix K
    assume nc: "1 \<le> ncrit" and k: "k < length cs" and wf: "cells_wf D cs"
      and inv: "cells_inv D ncrit K cs" and K: "\<forall>j \<in> K. j < k"
      and lv: "level (cs ! k) + 0 = D"
    define cs1 where "cs1 = cs[k := (cs ! k)\<lparr>leaf := leaf (cs ! k) @ [i], nleaf := nleaf (cs ! k) + 1\<rparr>]"
    have eq: "insert_particle 0 ncrit pos cs k i = cs1"
      unfolding cs1_def by (simp only: insert_particle.simps)
    have at_k: "nchild (cs ! k) = 0" "length (leaf (cs ! k)) = nleaf (cs ! k)"
      using inv k lv by (auto simp: cells_inv_def)
    have wf1: "cells_wf D cs1" unfolding cs1_def by (rule update_wf[OF wf]) simp_all
    have grow1: "cells_grow cs cs1" unfolding cs1_def by (rule update_grow) simp_all
    have inv1: "cells_inv D ncrit K cs1"
      unfolding cs1_def by (rule update_inv[OF inv]) (use at_k lv in auto)
    show "cells_wf D (insert_particle 0 ncrit pos cs k i) \<and>
          cells_inv D ncrit K (insert_particle 0 ncrit pos cs k i) \<and>
          cells_grow cs (insert_particle 0 ncrit pos cs k i)"
      unfolding eq using wf1 inv1 grow1 by simp
  qed
next
  case (2 depth ncrit pos cs k i)
  show ?case
  proof (intro allI impI)
    fix K
    assume nc: "1 \<le> ncrit" and k: "k < length cs" and wf: "cells_wf D cs"
      and inv: "cells_inv D ncrit K cs" and K: "\<forall>j \<in> K. j < k"
      and lv: "level (cs ! k) + Suc depth = D"
    have kK: "k \<notin> K" using K by auto
    have lvD: "level (cs ! k) < D" using lv by simp
    show "cells_wf D (insert_particle (Suc depth) ncrit pos cs k i) \<and>
          cells_inv D ncrit K (insert_particle (Suc depth) ncrit pos cs k i) \<and>
          cells_grow cs (insert_particle (Suc depth) ncrit pos cs k i)"
    proof (cases "nleaf (cs ! k) < ncrit")
      case True
      define cs1 where "cs1 = cs[k := (cs ! k)\<lparr>leaf := leaf (cs ! k) @ [i], nleaf := nleaf (cs ! k) + 1\<rparr>]"
      have at_k: "nchild (cs ! k) = 0" "length (leaf (cs ! k)) = nleaf (cs ! k)"
        using inv k True by (auto simp: cells_inv_def)
      have len1: "length cs1 = length cs" by (simp add: cs1_def)
      have k1: "cs1 ! k = (cs ! k)\<lparr>leaf := leaf (cs ! k) @ [i], nleaf := nleaf (cs ! k) + 1\<rparr>"
        using k by (simp add: cs1_def)
      have wf1: "cells_wf D cs1" unfolding cs1_def by (rule update_wf[OF wf]) simp_all
      have grow1: "cells_grow cs cs1" unfolding cs1_def by (rule update_grow) simp_all
      have lv1: "level (cs1 ! k) + Suc depth = D" using lv by (simp add: k1)
      show ?thesis
      proof (cases "ncrit \<le> nleaf (cs1 ! k)")
        case cross: True
        define cs2 where "cs2 = split_cell depth ncrit pos cs1 k (leaf (cs1 ! k))"
        have eq: "insert_particle (Suc depth) ncrit pos cs k i = cs2[k := (cs2 ! k)\<lparr>leaf := []\<rparr>]"
          unfolding cs2_def using cross unfolding cs1_def
          by (simp only: insert_particle.simps Let_def True if_True)
        have inv1: "cells_inv D ncrit (insert k K) cs1"
          unfolding cs1_def
          by (rule update_inv[OF inv]) (use cross k1 lvD in auto)
        have kl1: "k < length cs1" using k len1 by simp
        have "cells_wf D cs2 \<and> cells_inv D ncrit (insert k K) cs2 \<and> cells_grow cs1 cs2 \<and>
              (leaf (cs1 ! k) \<noteq> [] \<longrightarrow> nchild (cs2 ! k) \<noteq> 0)"
          unfolding cs2_def
          by (rule "2.IH"(1)[OF True cs1_def cross, rule_format, OF nc kl1 wf1 inv1 K [rule_format] cross lv1])
        then have wf2: "cells_wf D cs2" and inv2: "cells_inv D ncrit (insert k K) cs2"
          and grow2: "cells_grow cs1 cs2" and ch2: "nchild (cs2 ! k) \<noteq> 0"
          by (simp_all add: k1)
        have k2: "k < length cs2" using grow2 k len1 by (simp add: cells_grow_def)
        have n2: "ncrit \<le> nleaf (cs2 ! k)"
          using grow2 k len1 cross by (auto simp: cells_grow_def dest: le_trans)
        have l2: "level (cs2 ! k) < D" using grow2 kl1 lv1 by (simp add: cells_grow_def)
        have "cells_wf D (cs2[k := (cs2 ! k)\<lparr>leaf := []\<rparr>])" by (rule update_wf[OF wf2]) simp_all
        moreover have "cells_inv D ncrit K (cs2[k := (cs2 ! k)\<lparr>leaf := []\<rparr>])"
          by (rule update_inv[OF inv2]) (use n2 ch2 l2 in auto)
        moreover have "cells_grow cs2 (cs2[k := (cs2 ! k)\<lparr>leaf := []\<rparr>])"
          by (rule update_grow) simp_all
        then have "cells_grow cs (cs2[k := (cs2 ! k)\<lparr>leaf := []\<rparr>])"
          using grow1 grow2 cells_grow_trans by blast
        ultimately show ?thesis unfolding eq by blast
      next
        case False
        have eq: "insert_particle (Suc depth) ncrit pos cs k i = cs1"
          using False unfolding cs1_def
          by (simp only: insert_particle.simps Let_def True if_True if_False)
        have "cells_inv D ncrit K cs1"
          unfolding cs1_def
          by (rule update_inv[OF inv]) (use False k1 at_k lvD in auto)
        then show ?thesis unfolding eq using wf1 grow1 by simp
      qed
    next
      case False
      define cs1 where "cs1 = cs[k := (cs ! k)\<lparr>nleaf := nleaf (cs ! k) + 1\<rparr>]"
      define oc where "oc = octant_of (cs1 ! k) (pos i)"
      define cs2 where "cs2 = ensure_child cs1 k oc"
      have eq: "insert_particle (Suc depth) ncrit pos cs k i =
            insert_particle depth ncrit pos cs2 (child (cs2 ! k) ! oc) i"
        unfolding cs2_def oc_def cs1_def
        by (simp only: insert_particle.simps Let_def False if_False)
      have at_k: "leaf (cs ! k) = []" "nchild (cs ! k) \<noteq> 0"
        using inv k False kK lvD by (auto simp: cells_inv_def)
      have len1: "length cs1 = length cs" by (simp add: cs1_def)
      have k1: "cs1 ! k = (cs ! k)\<lparr>nleaf := nleaf (cs ! k) + 1\<rparr>"
        using k by (simp add: cs1_def)
      have wf1: "cells_wf D cs1" unfolding cs1_def by (rule update_wf[OF wf]) simp_all
      have grow1: "cells_grow cs cs1" unfolding cs1_def by (rule update_grow) simp_all
      have inv1: "cells_inv D ncrit K cs1"
        unfolding cs1_def by (rule update_inv[OF inv]) (use False at_k lvD in auto)
      have n1: "ncrit \<le> nleaf (cs1 ! k)" using False by (simp add: k1)
      have l1: "level (cs1 ! k) < D" using lvD by (simp add: k1)
      have oc: "oc < 8" unfolding oc_def by (rule octant_of_less)
      have k1': "k < length cs1" using k len1 by simp
      note ec = ensure_child_props[OF wf1 inv1 k1' oc n1 nc l1, folded cs2_def]
      have kl2: "k < length cs2" using ec(3) k1' by (simp add: cells_grow_def)
      have l2: "level (cs2 ! k) = level (cs ! k)"
        using ec(3) k1' by (simp add: cells_grow_def k1)
      have ch: "k < child (cs2 ! k) ! oc" "child (cs2 ! k) ! oc < length cs2"
               "level (cs2 ! (child (cs2 ! k) ! oc)) = level (cs2 ! k) + 1"
        using ec(1) ec(4) kl2 oc by (auto simp: cells_wf_def)
      have lc: "level (cs2 ! (child (cs2 ! k) ! oc)) + depth = D"
        using ch(3) l2 lv by simp
      have K': "\<forall>j \<in> K. j < child (cs2 ! k) ! oc" using K ch(1) by auto
      have "cells_wf D (insert_particle depth ncrit pos cs2 (child (cs2 ! k) ! oc) i) \<and>
            cells_inv D ncrit K (insert_particle depth ncrit pos cs2 (child (cs2 ! k) ! oc) i) \<and>
            cells_grow cs2 (insert_particle depth ncrit pos cs2 (child (cs2 ! k) ! oc) i)"
        by (rule "2.IH"(2)[OF False cs1_def oc_def cs2_def, rule_format, OF nc ch(2) ec(1) ec(2) K' [rule_format] lc])
      then show ?thesis unfolding eq using grow1 ec(3) cells_grow_trans by blast
    qed
  qed
next
  case (3 depth ncrit pos cs p)
  show ?case by (simp add: cells_grow_refl)
next
  case (4 depth ncrit pos cs p i rest)
  show ?case
  proof (intro allI impI)
    fix K
    assume nc: "1 \<le> ncrit" and p: "p < length cs" and wf: "cells_wf D cs"
      and inv: "cells_inv D ncrit (insert p K) cs" and K: "\<forall>j \<in> K. j < p"
      and np: "ncrit \<le> nleaf (cs ! p)" and lv: "level (cs ! p) + Suc depth = D"
    define oc where "oc = octant_of (cs ! p) (pos i)"
    define cs1 where "cs1 = ensure_child cs p oc"
    define cs2 where "cs2 = insert_particle depth ncrit pos cs1 (child (cs1 ! p) ! oc) i"
    have eq: "split_cell depth ncrit pos cs p (i # rest) = split_cell depth ncrit pos cs2 p rest"
      unfolding cs2_def cs1_def oc_def by (simp only: split_cell.simps Let_def)
    have lvD: "level (cs ! p) < D" using lv by simp
    have oc: "oc < 8" unfolding oc_def by (rule octant_of_less)
    note ec = ensure_child_props[OF wf inv p oc np nc lvD, folded cs1_def]
    have pl1: "p < length cs1" using ec(3) p by (simp add: cells_grow_def)
    have l1: "level (cs1 ! p) = level (cs ! p)" using ec(3) p by (simp add: cells_grow_def)
    have ch: "p < child (cs1 ! p) ! oc" "child (cs1 ! p) ! oc < length cs1"
             "level (cs1 ! (child (cs1 ! p) ! oc)) = level (cs1 ! p) + 1"
      using ec(1) ec(4) pl1 oc by (auto simp: cells_wf_def)
    have lc: "level (cs1 ! (child (cs1 ! p) ! oc)) + depth = D"
      using ch(3) l1 lv by simp
    have K': "\<forall>j \<in> insert p K. j < child (cs1 ! p) ! oc" using K ch(1) by auto
    have "cells_wf D cs2 \<and> cells_inv D ncrit (insert p K) cs2 \<and> cells_grow cs1 cs2"
      unfolding cs2_def
      by (rule "4.IH"(1)[OF oc_def cs1_def, rule_format, OF nc ch(2) ec(1) ec(2) K' [rule_format] lc])
    then have wf2: "cells_wf D cs2" and inv2: "cells_inv D ncrit (insert p K) cs2"
      and grow2: "cells_grow cs1 cs2" by simp_all
    have grow02: "cells_grow cs cs2" using ec(3) grow2 cells_grow_trans by blast
    have pl2: "p < length cs2" using grow02 p by (simp add: cells_grow_def)
    have np2: "ncrit \<le> nleaf (cs2 ! p)"
      using grow02 p np by (auto simp: cells_grow_def dest: le_trans)
    have lv2: "level (cs2 ! p) + Suc depth = D"
      using grow02 p lv by (simp add: cells_grow_def)
    have nz1: "nchild (cs1 ! p) \<noteq> 0" using ec(4) by (rule bit_nonzero)
    have nz2: "nchild (cs2 ! p) \<noteq> 0" using grow2 pl1 nz1 by (simp add: cells_grow_def)
    have "cells_wf D (split_cell depth ncrit pos cs2 p rest) \<and>
          cells_inv D ncrit (insert p K) (split_cell depth ncrit pos cs2 p rest) \<and>
          cells_grow cs2 (split_cell depth ncrit pos cs2 p rest) \<and>
          (rest \<noteq> [] \<longrightarrow> nchild (split_cell depth ncrit pos cs2 p rest ! p) \<noteq> 0)"
      by (rule "4.IH"(2)[OF oc_def cs1_def cs2_def, rule_format, OF nc pl2 wf2 inv2 K [rule_format] np2 lv2])
    then have wf': "cells_wf D (split_cell depth ncrit pos cs2 p rest)"
      and inv': "cells_inv D ncrit (insert p K) (split_cell depth ncrit pos cs2 p rest)"
      and grow': "cells_grow cs2 (split_cell depth ncrit pos cs2 p rest)" by simp_all
    have nz': "nchild (split_cell depth ncrit pos cs2 p rest ! p) \<noteq> 0"
      using grow' pl2 nz2 by (simp add: cells_grow_def)
    have "cells_grow cs (split_cell depth ncrit pos cs2 p rest)"
      using grow02 grow' cells_grow_trans by blast
    then show "cells_wf D (split_cell depth ncrit pos cs p (i # rest)) \<and>
               cells_inv D ncrit (insert p K) (split_cell depth ncrit pos cs p (i # rest)) \<and>
               cells_grow cs (split_cell depth ncrit pos cs p (i # rest)) \<and>
               (i # rest \<noteq> [] \<longrightarrow> nchild (split_cell depth ncrit pos cs p (i # rest) ! p) \<noteq> 0)"
      unfolding eq using wf' inv' nz' by simp
  qed
qed

lemma new_cell_inv:
  assumes "1 \<le> ncrit"
  shows "cells_wf D [new_cell cx cy cz cr par 0]" "cells_inv D ncrit {} [new_cell cx cy cz cr par 0]"
  using assms by (simp_all add: cells_wf_def cells_inv_def new_cell_def)

lemma build_cells_upto:
  assumes "1 \<le> ncrit"
  shows "cells_wf D (fold (\<lambda>i cs. insert_particle D ncrit pos cs 0 i) [0..<n] [new_cell cx cy cz cr par 0]) \<and>
         cells_inv D ncrit {} (fold (\<lambda>i cs. insert_particle D ncrit pos cs 0 i) [0..<n] [new_cell cx cy cz cr par 0]) \<and>
         0 < length (fold (\<lambda>i cs. insert_particle D ncrit pos cs 0 i) [0..<n] [new_cell cx cy cz cr par 0]) \<and>
         level (fold (\<lambda>i cs. insert_particle D ncrit pos cs 0 i) [0..<n] [new_cell cx cy cz cr par 0] ! 0) = 0"
proof (induction n)
  case 0
  then show ?case using new_cell_inv[OF assms] by (simp add: new_cell_def)
next
  case (Suc n)
  define cs0 where "cs0 = fold (\<lambda>i cs. insert_particle D ncrit pos cs 0 i) [0..<n] [new_cell cx cy cz cr par 0]"
  have eq: "fold (\<lambda>i cs. insert_particle D ncrit pos cs 0 i) [0..<Suc n] [new_cell cx cy cz cr par 0]
            = insert_particle D ncrit pos cs0 0 n"
    by (simp add: cs0_def)
  from Suc.IH have wf0: "cells_wf D cs0" and inv0: "cells_inv D ncrit {} cs0"
    and l0: "0 < length cs0" and lv0: "level (cs0 ! 0) = 0" by (simp_all add: cs0_def)
  have K: "\<And>j. j \<in> {} \<Longrightarrow> j < (0::nat)" by simp
  have lv: "level (cs0 ! 0) + D = D" using lv0 by simp
  from builder_inv(1)[rule_format, OF assms l0 wf0 inv0 K lv]
  have r: "cells_wf D (insert_particle D ncrit pos cs0 0 n)"
    "cells_inv D ncrit {} (insert_particle D ncrit pos cs0 0 n)"
    "cells_grow cs0 (insert_particle D ncrit pos cs0 0 n)" by simp_all
  show ?case unfolding eq using r l0 lv0 by (auto simp: cells_grow_def)
qed

lemma build_cells_inv:
  assumes "1 \<le> ncrit"
  shows "cells_wf D (build_cells D ncrit pos N (new_cell cx cy cz cr par 0))"
        "cells_inv D ncrit {} (build_cells D ncrit pos N (new_cell cx cy cz cr par 0))"
  using build_cells_upto[OF assms, of D pos N cx cy cz cr par]
  by (simp_all add: build_cells_def)

lemma build_tree_Inr:
  assumes "build_tree maxdepth root_ball positions moments N ncrit order theta = Inr t"
  shows "1 \<le> ncrit \<and> 2 \<le> order \<and> 0 < theta \<and> 0 < N \<and> tree_ncrit t = ncrit \<and>
         tree_cells t = build_cells maxdepth ncrit (position positions) N
           (new_cell (fst (fst root_ball)) (fst (snd (fst root_ball))) (snd (snd (fst root_ball)))
                     (snd root_ball) 0 0)"
  using assms
  by (auto simp: build_tree_def split: prod.splits if_splits)

lemma ex_build: "build_tree 4 ((0, 0, 0), 1) ex_positions ex_moments 3 2 2 (1 / 2) = Inr ex_tree"
  by code_simp

lemma s1_build: "build_tree 2 ((0, 0, 0), 1) s1_positions s1_moments 2 1 4 (1 / 2) = Inr s1_tree"
  by code_simp

text \<open>
  C4, as amended. In the tree of a completed construction with the maximum depth
  \<open>maxdepth\<close>, no cell lies below that depth; a cell is a leaf (it has no child)
  exactly when \<open>nleaf < ncrit\<close> or the cell is at the maximum depth; a split cell has an
  empty leaf list and \<open>nleaf \<ge> ncrit\<close> as its mark; and a leaf holds \<open>nleaf\<close> particles in
  its leaf list. So above the maximum depth the leaves are the cells with
  \<open>nleaf < ncrit\<close>, while a leaf at the maximum depth can have \<open>nleaf \<ge> ncrit\<close>: with
  \<open>ncrit = 1\<close>, as in scenario S1 of the spec, every leaf that holds a particle is one.
\<close>

theorem built_tree_leaves:
  assumes "build_tree maxdepth root_ball positions moments N ncrit order theta = Inr t"
  shows "\<forall>c \<in> set (tree_cells t).
           level c \<le> maxdepth \<and>
           (nchild c = 0 \<longleftrightarrow> nleaf c < ncrit \<or> level c = maxdepth) \<and>
           (nchild c \<noteq> 0 \<longrightarrow> leaf c = [] \<and> ncrit \<le> nleaf c) \<and>
           (nchild c = 0 \<longrightarrow> length (leaf c) = nleaf c)"
proof
  fix c assume "c \<in> set (tree_cells t)"
  then obtain j where j: "j < length (tree_cells t)" "c = tree_cells t ! j"
    by (auto simp: in_set_conv_nth)
  from build_tree_Inr[OF assms] have
    nc: "1 \<le> ncrit"
    and bc: "tree_cells t = build_cells maxdepth ncrit (position positions) N
           (new_cell (fst (fst root_ball)) (fst (snd (fst root_ball))) (snd (snd (fst root_ball)))
                     (snd root_ball) 0 0)" by simp_all
  have wf: "cells_wf maxdepth (tree_cells t)" and inv: "cells_inv maxdepth ncrit {} (tree_cells t)"
    unfolding bc by (rule build_cells_inv[OF nc])+
  have l: "level c \<le> maxdepth" using wf j by (simp add: cells_wf_def)
  have a: "level c = maxdepth \<or> nleaf c < ncrit \<longrightarrow> nchild c = 0 \<and> length (leaf c) = nleaf c"
    and b: "level c < maxdepth \<longrightarrow> ncrit \<le> nleaf c \<longrightarrow> leaf c = [] \<and> nchild c \<noteq> 0"
    using inv j by (simp_all add: cells_inv_def)
  show "level c \<le> maxdepth \<and>
           (nchild c = 0 \<longleftrightarrow> nleaf c < ncrit \<or> level c = maxdepth) \<and>
           (nchild c \<noteq> 0 \<longrightarrow> leaf c = [] \<and> ncrit \<le> nleaf c) \<and>
           (nchild c = 0 \<longrightarrow> length (leaf c) = nleaf c)"
    using l a b by (cases "nleaf c < ncrit"; cases "level c = maxdepth") auto
qed

theorem built_tree_leaves_witness:
  "build_tree 4 ((0, 0, 0), 1) ex_positions ex_moments 3 2 2 (1 / 2) = Inr ex_tree \<and>
   tree_cells ex_tree ! 0 \<in> set (tree_cells ex_tree) \<and>
   level (tree_cells ex_tree ! 0) \<le> 4 \<and>
   nchild (tree_cells ex_tree ! 0) \<noteq> 0 \<and> \<not> nleaf (tree_cells ex_tree ! 0) < 2 \<and>
   leaf (tree_cells ex_tree ! 0) = [] \<and>
   tree_cells ex_tree ! 1 \<in> set (tree_cells ex_tree) \<and>
   nchild (tree_cells ex_tree ! 1) = 0 \<and> nleaf (tree_cells ex_tree ! 1) < 2 \<and>
   length (leaf (tree_cells ex_tree ! 1)) = nleaf (tree_cells ex_tree ! 1)"
proof -
  have 0: "tree_cells ex_tree ! 0 \<in> set (tree_cells ex_tree)"
    and 1: "tree_cells ex_tree ! 1 \<in> set (tree_cells ex_tree)"
    by (simp_all add: ex_tree_def)
  have n0: "nchild (tree_cells ex_tree ! 0) \<noteq> 0" and n1: "nleaf (tree_cells ex_tree ! 1) < 2"
    by (simp_all add: ex_tree_def)
  note th0 = built_tree_leaves [OF ex_build, THEN bspec, OF 0]
  note th1 = built_tree_leaves [OF ex_build, THEN bspec, OF 1]
  show ?thesis
    using ex_build 0 1 n0 n1 th0 th1 by auto
qed

theorem built_tree_leaves_counterexample:
  "build_tree 2 ((0, 0, 0), 1) s1_positions s1_moments 2 1 4 (1 / 2) = Inr s1_tree \<and>
   tree_cells s1_tree ! 2 \<in> set (tree_cells s1_tree) \<and>
   level (tree_cells s1_tree ! 2) = 2 \<and>
   nchild (tree_cells s1_tree ! 2) = 0 \<and>
   leaf (tree_cells s1_tree ! 2) = [0] \<and>
   nleaf (tree_cells s1_tree ! 2) = 1 \<and>
   \<not> nleaf (tree_cells s1_tree ! 2) < tree_ncrit s1_tree"
proof (intro conjI)
  show "build_tree 2 ((0, 0, 0), 1) s1_positions s1_moments 2 1 4 (1 / 2) = Inr s1_tree"
    by (rule s1_build)
qed (simp_all add: s1_tree_def)

text \<open>
  C2. When \<open>ncrit < 1\<close>, \<open>order < 2\<close>, \<open>theta \<le> 0\<close> or \<open>N = 0\<close>, the construction fails with
  \<open>InvalidParameters\<close>, whatever the other inputs are, and gives no tree.
\<close>

theorem build_tree_invalid_parameters:
  assumes "ncrit < 1 \<or> order < 2 \<or> theta \<le> 0 \<or> N = 0"
  shows "build_tree maxdepth root_ball positions moments N ncrit order theta = Inl InvalidParameters \<and>
         (\<nexists>t. build_tree maxdepth root_ball positions moments N ncrit order theta = Inr t)"
  using assms by (auto simp: build_tree_def split: prod.splits)

theorem build_tree_invalid_parameters_witness:
  "((0::nat) < 1 \<or> (2::nat) < 2 \<or> (1 / 2 :: real) \<le> 0 \<or> (3::nat) = 0) \<and>
   build_tree 4 ((0, 0, 0), 1) ex_positions ex_moments 3 0 2 (1 / 2) = Inl InvalidParameters \<and>
   (\<nexists>t. build_tree 4 ((0, 0, 0), 1) ex_positions ex_moments 3 0 2 (1 / 2) = Inr t)"
proof -
  have h: "(0::nat) < 1 \<or> (2::nat) < 2 \<or> (1 / 2 :: real) \<le> 0 \<or> (3::nat) = 0" by simp
  show ?thesis
    by (rule conjI [OF h build_tree_invalid_parameters [OF h]])
qed

section \<open>Admissible pairs in the interaction driver\<close>



end
